theory Spec2Isabelle
  imports Complex_Main "HOL-Library.Multiset" "HOL-Library.Product_Lexorder"
begin

section \<open>Dates and errors\<close>

text \<open>
  A \<open>datetime.date\<close> is modelled by its proleptic Gregorian ordinal
  (\<open>date.toordinal()\<close>): day 1 is 0001-01-01, a Monday, and the last date is
  9999-12-31, ordinal 3652059. Adding a \<open>timedelta\<close> that leaves this range
  raises \<open>OverflowError\<close>.
\<close>

type_synonym date = int

datatype py_error = KeyError string | OverflowError | ZeroDivisionError

definition date_max :: int where
  "date_max = 3652059"

definition date_add :: "date \<Rightarrow> int \<Rightarrow> py_error + date" where
  "date_add d k = (if 1 \<le> d + k \<and> d + k \<le> date_max then Inr (d + k) else Inl OverflowError)"

definition weekday :: "date \<Rightarrow> int" where
  "weekday d = (d + 6) mod 7"

section \<open>Data frames of the scheduler\<close>

text \<open>
  A frame is its rows together with the columns it has: the scheduler reads the
  columns \<open>case_id\<close>, \<open>case_number\<close> and \<open>priority_score\<close> of \<open>cases_df\<close> and
  \<open>judge_id\<close> and \<open>judge_name\<close> of \<open>judges_df\<close>, and any of them may be missing
  (\<open>pd.DataFrame()\<close> has none). A field of a row is read only behind the check that
  its column is there; reading a missing column raises \<open>KeyError\<close>. Priority scores
  are rationals here (no NaN).
\<close>

record case_row =
  case_id :: int
  case_number :: string
  priority_score :: rat

record cases_df =
  has_case_id :: bool
  has_case_number :: bool
  has_priority_score :: bool
  case_rows :: "case_row list"

record judge_row =
  judge_id :: int
  judge_name :: string

record judges_df =
  has_judge_id :: bool
  has_judge_name :: bool
  judge_rows :: "judge_row list"

text \<open>\<open>pd.DataFrame()\<close> as a judge frame: no columns, no rows.\<close>

definition empty_judges_df :: judges_df where
  "empty_judges_df = \<lparr>has_judge_id = False, has_judge_name = False, judge_rows = []\<rparr>"


record hearing =
  h_case_id :: int
  h_case_number :: string
  h_judge_id :: int
  h_judge_name :: string
  hearing_date :: date
  h_priority_score :: rat
  estimated_duration_hours :: rat

text \<open>
  The schedule frame: \<open>pd.DataFrame(schedule)\<close> of a list of dicts has the keys of
  the dicts as columns, and no column at all when the list is empty.
\<close>

record schedule_df =
  columns :: "string list"
  rows :: "hearing list"

definition schedule_columns :: "string list" where
  "schedule_columns = [''case_id'', ''case_number'', ''judge_id'', ''judge_name'',
     ''hearing_date'', ''priority_score'', ''estimated_duration_hours'']"

definition pd_DataFrame :: "hearing list \<Rightarrow> schedule_df" where
  "pd_DataFrame hs = \<lparr>columns = (if hs = [] then [] else schedule_columns), rows = hs\<rparr>"

section \<open>HearingScheduler\<close>

record HearingScheduler =
  max_hearings_per_day :: int
  max_hearings_per_judge :: int
  working_hours_per_day :: int
  avg_hearing_duration :: rat


text \<open>
  The state of \<open>schedule_hearings_heuristic\<close>: the list \<open>schedule\<close>, the two
  counter dicts, and the warnings logged for the cases that found no slot.
\<close>

record sched_state =
  schedule :: "hearing list"
  daily_hearings :: "date \<rightharpoonup> int"
  judge_daily_hearings :: "(int \<times> date) \<rightharpoonup> int"
  warnings :: "string list"

text \<open>\<open>range(num_days)\<close>\<close>

definition range_days :: "int \<Rightarrow> int list" where
  "range_days num_days = map int [0..<nat num_days]"

text \<open>The dates \<open>current_date + timedelta(days=i)\<close> of a comprehension, in order.\<close>

fun horizon_dates :: "date \<Rightarrow> int list \<Rightarrow> py_error + date list" where
  "horizon_dates cur [] = Inr []"
| "horizon_dates cur (i # ks) =
     (case date_add cur i of
        Inl e \<Rightarrow> Inl e
      | Inr d \<Rightarrow> (case horizon_dates cur ks of
                   Inl e \<Rightarrow> Inl e
                 | Inr ds \<Rightarrow> Inr (d # ds)))"

definition init_daily_hearings :: "date \<Rightarrow> int \<Rightarrow> py_error + (date \<rightharpoonup> int)" where
  "init_daily_hearings cur num_days =
     (case horizon_dates cur (range_days num_days) of
        Inl e \<Rightarrow> Inl e
      | Inr ds \<Rightarrow> Inr (map_of (map (\<lambda>d. (d, 0)) ds)))"

fun init_judge_daily_hearings ::
  "date \<Rightarrow> int \<Rightarrow> int list \<Rightarrow> py_error + ((int \<times> date) \<rightharpoonup> int)" where
  "init_judge_daily_hearings cur num_days [] = Inr Map.empty"
| "init_judge_daily_hearings cur num_days (j # js) =
     (case horizon_dates cur (range_days num_days) of
        Inl e \<Rightarrow> Inl e
      | Inr ds \<Rightarrow> (case init_judge_daily_hearings cur num_days js of
                   Inl e \<Rightarrow> Inl e
                 | Inr m \<Rightarrow> Inr (m ++ map_of (map (\<lambda>d. ((j, d), 0)) ds))))"

text \<open>\<open>case_row.get('priority_score', 50)\<close>\<close>

definition get_priority :: "cases_df \<Rightarrow> case_row \<Rightarrow> rat" where
  "get_priority cases c = (if has_priority_score cases then priority_score c else 50)"

text \<open>
  The loop over the judges (lines 116 to 137), for one case and one date. The dict
  of the new assignment reads \<open>case_id\<close>, \<open>case_number\<close> and \<open>judge_name\<close> in this
  order.
\<close>

fun try_judges ::
  "HearingScheduler \<Rightarrow> cases_df \<Rightarrow> judges_df \<Rightarrow> case_row \<Rightarrow> date \<Rightarrow> judge_row list
     \<Rightarrow> sched_state \<Rightarrow> py_error + (sched_state \<times> bool)" where
  "try_judges cfg cases judges c hdate [] st = Inr (st, False)"
| "try_judges cfg cases judges c hdate (j # js) st =
     (if \<not> has_judge_id judges then Inl (KeyError ''judge_id'')
      else
        (case judge_daily_hearings st (judge_id j, hdate) of
           None \<Rightarrow> Inl (KeyError ''judge_key'')
         | Some k \<Rightarrow>
             if k < max_hearings_per_judge cfg then
               (if \<not> has_case_id cases then Inl (KeyError ''case_id'')
                else if \<not> has_case_number cases then Inl (KeyError ''case_number'')
                else if \<not> has_judge_name judges then Inl (KeyError ''judge_name'')
                else
                  (case daily_hearings st hdate of
                     None \<Rightarrow> Inl (KeyError ''hearing_date'')
                   | Some m \<Rightarrow>
                       Inr (st\<lparr>schedule := schedule st @
                                  [\<lparr>h_case_id = case_id c, h_case_number = case_number c,
                                    h_judge_id = judge_id j, h_judge_name = judge_name j,
                                    hearing_date = hdate,
                                    h_priority_score = get_priority cases c,
                                    estimated_duration_hours = avg_hearing_duration cfg\<rparr>],
                                daily_hearings := (daily_hearings st)(hdate \<mapsto> m + 1),
                                judge_daily_hearings :=
                                  (judge_daily_hearings st)((judge_id j, hdate) \<mapsto> k + 1)\<rparr>,
                            True)))
             else try_judges cfg cases judges c hdate js st))"

text \<open>The loop over the day offsets (lines 104 to 140), for one case.\<close>

fun try_days ::
  "HearingScheduler \<Rightarrow> cases_df \<Rightarrow> judges_df \<Rightarrow> case_row \<Rightarrow> date \<Rightarrow> int list
     \<Rightarrow> sched_state \<Rightarrow> py_error + (sched_state \<times> bool)" where
  "try_days cfg cases judges c cur [] st = Inr (st, False)"
| "try_days cfg cases judges c cur (i # ks) st =
     (case date_add cur i of
        Inl e \<Rightarrow> Inl e
      | Inr hdate \<Rightarrow>
          if weekday hdate \<ge> 5 then try_days cfg cases judges c cur ks st
          else (case daily_hearings st hdate of
                  None \<Rightarrow> Inl (KeyError ''hearing_date'')
                | Some m \<Rightarrow>
                    if m \<ge> max_hearings_per_day cfg then try_days cfg cases judges c cur ks st
                    else (case try_judges cfg cases judges c hdate (judge_rows judges) st of
                            Inl e \<Rightarrow> Inl e
                          | Inr (st', scheduled) \<Rightarrow>
                              if scheduled then Inr (st', True)
                              else try_days cfg cases judges c cur ks st')))"

text \<open>
  The loop over the cases (lines 100 to 143); the warning for a case without a slot
  reads its \<open>case_number\<close>.
\<close>

fun schedule_cases ::
  "HearingScheduler \<Rightarrow> cases_df \<Rightarrow> judges_df \<Rightarrow> date \<Rightarrow> int \<Rightarrow> case_row list
     \<Rightarrow> sched_state \<Rightarrow> py_error + sched_state" where
  "schedule_cases cfg cases judges cur num_days [] st = Inr st"
| "schedule_cases cfg cases judges cur num_days (c # cs) st =
     (case try_days cfg cases judges c cur (range_days num_days) st of
        Inl e \<Rightarrow> Inl e
      | Inr (st', scheduled) \<Rightarrow>
          if scheduled then schedule_cases cfg cases judges cur num_days cs st'
          else if \<not> has_case_number cases then Inl (KeyError ''case_number'')
          else schedule_cases cfg cases judges cur num_days cs
                 (st'\<lparr>warnings := warnings st' @ [case_number c]\<rparr>))"

text \<open>
  \<open>cases_df.sort_values('priority_score', ascending=False)\<close> is a call into pandas
  with the default \<open>kind='quicksort'\<close>. The sort is a parameter \<open>srt\<close> of the model;
  what pandas documents of it is \<open>sort_values_contract\<close>: the rows are permuted into
  non-increasing priority. The order among rows of equal priority is left to the
  library.
\<close>

definition sort_values_contract :: "(case_row list \<Rightarrow> case_row list) \<Rightarrow> bool" where
  "sort_values_contract srt \<longleftrightarrow>
     (\<forall>xs. mset (srt xs) = mset xs \<and>
           sorted_wrt (\<lambda>a b. priority_score a \<ge> priority_score b) (srt xs))"

definition processing_order :: "(case_row list \<Rightarrow> case_row list) \<Rightarrow> cases_df \<Rightarrow> case_row list" where
  "processing_order srt cases =
     (if has_priority_score cases then srt (case_rows cases) else case_rows cases)"

text \<open>
  Lines 88 to 97: the empty schedule and the two counter dicts, all zero. The second
  comprehension starts by reading \<open>judges_df['judge_id']\<close>, which raises \<open>KeyError\<close>
  for a frame without that column, whatever its rows.
\<close>

definition initial_state :: "date \<Rightarrow> int \<Rightarrow> judges_df \<Rightarrow> py_error + sched_state" where
  "initial_state cur num_days judges =
     (case init_daily_hearings cur num_days of
        Inl e \<Rightarrow> Inl e
      | Inr dh \<Rightarrow>
          if \<not> has_judge_id judges then Inl (KeyError ''judge_id'')
          else
            (case init_judge_daily_hearings cur num_days (map judge_id (judge_rows judges)) of
               Inl e \<Rightarrow> Inl e
             | Inr jdh \<Rightarrow> Inr \<lparr>schedule = [], daily_hearings = dh, judge_daily_hearings = jdh,
                                warnings = []\<rparr>))"

text \<open>
  \<open>schedule_hearings_heuristic\<close>: the result is the schedule frame, paired with the
  case numbers of the warnings "Could not schedule case ...".
\<close>

definition schedule_hearings_heuristic ::
  "(case_row list \<Rightarrow> case_row list) \<Rightarrow> HearingScheduler \<Rightarrow> cases_df \<Rightarrow> judges_df
     \<Rightarrow> date \<Rightarrow> int \<Rightarrow> py_error + (schedule_df \<times> string list)" where
  "schedule_hearings_heuristic srt cfg cases judges start_date num_days =
     (case initial_state start_date num_days judges of
        Inl e \<Rightarrow> Inl e
      | Inr st0 \<Rightarrow>
          (case schedule_cases cfg cases judges start_date num_days
                  (processing_order srt cases) st0 of
             Inl e \<Rightarrow> Inl e
           | Inr st \<Rightarrow> Inr (pd_DataFrame (schedule st), warnings st)))"

text \<open>
  Two behaviours that \<open>sort_values_contract\<close> admits: a stable sort (what
  \<open>kind='stable'\<close> would give), and a sort that leaves equal priorities in reverse
  input order.
\<close>

definition sort_values_stable :: "case_row list \<Rightarrow> case_row list" where
  "sort_values_stable xs = sort_key (\<lambda>c. - priority_score c) xs"


section \<open>Counting assignments\<close>

definition day_count :: "hearing list \<Rightarrow> date \<Rightarrow> nat" where
  "day_count hs d = length (filter (\<lambda>h. hearing_date h = d) hs)"

definition judge_day_count :: "hearing list \<Rightarrow> int \<Rightarrow> date \<Rightarrow> nat" where
  "judge_day_count hs j d = length (filter (\<lambda>h. h_judge_id h = j \<and> hearing_date h = d) hs)"

text \<open>
  The horizon stays inside the calendar: no \<open>current_date + timedelta(days=i)\<close>
  with \<open>i\<close> in \<open>range(num_days)\<close> overflows.
\<close>

definition horizon_fits :: "date \<Rightarrow> int \<Rightarrow> bool" where
  "horizon_fits cur num_days \<longleftrightarrow> (0 < num_days \<longrightarrow> 1 \<le> cur \<and> cur + num_days - 1 \<le> date_max)"

text \<open>
  The invariant of the loops: on the keys of the horizon the counter dicts hold the
  numbers of assignments made so far, and no group of assignments is over its limit.
\<close>

definition counters_ok :: "HearingScheduler \<Rightarrow> int set \<Rightarrow> date set \<Rightarrow> sched_state \<Rightarrow> bool" where
  "counters_ok cfg jids days st \<longleftrightarrow>
     (\<forall>d\<in>days. daily_hearings st d = Some (int (day_count (schedule st) d))) \<and>
     (\<forall>j\<in>jids. \<forall>d\<in>days.
        judge_daily_hearings st (j, d) = Some (int (judge_day_count (schedule st) j d))) \<and>
     (\<forall>d. 0 < day_count (schedule st) d \<longrightarrow>
        int (day_count (schedule st) d) \<le> max_hearings_per_day cfg) \<and>
     (\<forall>j d. 0 < judge_day_count (schedule st) j d \<longrightarrow>
        int (judge_day_count (schedule st) j d) \<le> max_hearings_per_judge cfg)"

section \<open>The optimized scheduler\<close>

text \<open>
  The CP-SAT model of \<open>schedule_hearings_optimized\<close>: one Boolean variable per
  (case, judge, day) index triple, linear constraints over them, and the terms of the
  objective. The solver is OR-Tools, outside the repository: it is a parameter that
  maps a model to a status and the values of the variables.
\<close>

type_synonym cp_var = "nat \<times> nat \<times> nat"

datatype linear_constraint = SumEq "cp_var list" int | SumLe "cp_var list" int

record cp_model =
  bool_vars :: "cp_var list"
  cp_constraints :: "linear_constraint list"
  objective_terms :: "(int \<times> cp_var) list"

datatype solver_status = UNKNOWN | MODEL_INVALID | FEASIBLE | INFEASIBLE | OPTIMAL

type_synonym cp_solver = "cp_model \<Rightarrow> solver_status \<times> (cp_var \<Rightarrow> int)"

text \<open>\<open>int(x)\<close> of a Python float: truncation towards zero.\<close>

definition py_int :: "rat \<Rightarrow> int" where
  "py_int x = (if 0 \<le> x then \<lfloor>x\<rfloor> else \<lceil>x\<rceil>)"

text \<open>
  The coefficient \<open>int(priority * time_weight)\<close> of an objective term is a product of
  Python floats: how it rounds is not decided here, it is the parameter \<open>coef\<close> of the
  model. \<open>exact_coefficient\<close> is its value when the product is exact.
\<close>

type_synonym coefficient = "rat \<Rightarrow> int \<Rightarrow> int"

definition exact_coefficient :: coefficient where
  "exact_coefficient priority time_weight = py_int (priority * of_int time_weight)"

definition build_model ::
  "coefficient \<Rightarrow> HearingScheduler \<Rightarrow> cases_df \<Rightarrow> judges_df \<Rightarrow> int \<Rightarrow> cp_model" where
  "build_model coef cfg cases judges num_days =
     (let nc = length (case_rows cases); nj = length (judge_rows judges); nd = nat num_days in
      \<lparr>bool_vars = concat (map (\<lambda>c. concat (map (\<lambda>j. map (\<lambda>d. (c, j, d)) [0..<nd]) [0..<nj])) [0..<nc]),
       cp_constraints =
         map (\<lambda>c. SumEq (concat (map (\<lambda>j. map (\<lambda>d. (c, j, d)) [0..<nd]) [0..<nj])) 1) [0..<nc]
         @ concat (map (\<lambda>j. map (\<lambda>d. SumLe (map (\<lambda>c. (c, j, d)) [0..<nc])
                                      (max_hearings_per_judge cfg)) [0..<nd]) [0..<nj])
         @ map (\<lambda>d. SumLe (concat (map (\<lambda>c. map (\<lambda>j. (c, j, d)) [0..<nj]) [0..<nc]))
                       (max_hearings_per_day cfg)) [0..<nd],
       objective_terms =
         concat (map (\<lambda>c. concat (map (\<lambda>j. map (\<lambda>d.
             (coef (get_priority cases (case_rows cases ! c)) (num_days - int d), (c, j, d)))
             [0..<nd]) [0..<nj])) [0..<nc])\<rparr>)"

fun holds :: "(cp_var \<Rightarrow> int) \<Rightarrow> linear_constraint \<Rightarrow> bool" where
  "holds v (SumEq xs k) = (sum_list (map v xs) = k)"
| "holds v (SumLe xs k) = (sum_list (map v xs) \<le> k)"

definition feasible :: "cp_model \<Rightarrow> (cp_var \<Rightarrow> int) \<Rightarrow> bool" where
  "feasible m v \<longleftrightarrow>
     (\<forall>x\<in>set (bool_vars m). v x = 0 \<or> v x = 1) \<and> (\<forall>c\<in>set (cp_constraints m). holds v c)"

text \<open>
  What CP-SAT guarantees: with status OPTIMAL or FEASIBLE the values it reports
  satisfy the model.
\<close>

definition solver_sound :: "cp_solver \<Rightarrow> bool" where
  "solver_sound solve \<longleftrightarrow>
     (\<forall>m. fst (solve m) = OPTIMAL \<or> fst (solve m) = FEASIBLE \<longrightarrow> feasible m (snd (solve m)))"

text \<open>
  Lines 239 to 254: the rows of the variables with value 1, in loop order. Each row
  computes its date and then reads the columns \<open>case_id\<close>, \<open>case_number\<close>,
  \<open>judge_id\<close> and \<open>judge_name\<close>.
\<close>

fun extract_schedule ::
  "HearingScheduler \<Rightarrow> cases_df \<Rightarrow> judges_df \<Rightarrow> date \<Rightarrow> (cp_var \<Rightarrow> int) \<Rightarrow> cp_var list
     \<Rightarrow> py_error + hearing list" where
  "extract_schedule cfg cases judges start_date v [] = Inr []"
| "extract_schedule cfg cases judges start_date v ((c, j, d) # xs) =
     (if v (c, j, d) = 1 then
        (case date_add start_date (int d) of
           Inl e \<Rightarrow> Inl e
         | Inr hdate \<Rightarrow>
             if \<not> has_case_id cases then Inl (KeyError ''case_id'')
             else if \<not> has_case_number cases then Inl (KeyError ''case_number'')
             else if \<not> has_judge_id judges then Inl (KeyError ''judge_id'')
             else if \<not> has_judge_name judges then Inl (KeyError ''judge_name'')
             else
               (case extract_schedule cfg cases judges start_date v xs of
                  Inl e \<Rightarrow> Inl e
                | Inr hs \<Rightarrow>
                    Inr (\<lparr>h_case_id = case_id (case_rows cases ! c),
                          h_case_number = case_number (case_rows cases ! c),
                          h_judge_id = judge_id (judge_rows judges ! j),
                          h_judge_name = judge_name (judge_rows judges ! j),
                          hearing_date = hdate,
                          h_priority_score = get_priority cases (case_rows cases ! c),
                          estimated_duration_hours = avg_hearing_duration cfg\<rparr> # hs)))
      else extract_schedule cfg cases judges start_date v xs)"

text \<open>
  \<open>schedule_hearings_optimized\<close>; \<open>ortools\<close> is \<open>None\<close> when the import of OR-Tools
  failed (\<open>ORTOOLS_AVAILABLE = False\<close>).
\<close>

definition schedule_hearings_optimized ::
  "(case_row list \<Rightarrow> case_row list) \<Rightarrow> cp_solver option \<Rightarrow> coefficient \<Rightarrow> HearingScheduler
     \<Rightarrow> cases_df \<Rightarrow> judges_df \<Rightarrow> date \<Rightarrow> int \<Rightarrow> py_error + (schedule_df \<times> string list)" where
  "schedule_hearings_optimized srt ortools coef cfg cases judges start_date num_days =
     (case ortools of
        None \<Rightarrow> schedule_hearings_heuristic srt cfg cases judges start_date num_days
      | Some solve \<Rightarrow>
          (let m = build_model coef cfg cases judges num_days;
               status = fst (solve m); v = snd (solve m) in
           if status = OPTIMAL \<or> status = FEASIBLE then
             (case extract_schedule cfg cases judges start_date v (bool_vars m) of
                Inl e \<Rightarrow> Inl e
              | Inr hs \<Rightarrow> Inr (pd_DataFrame hs, []))
           else schedule_hearings_heuristic srt cfg cases judges start_date num_days))"

section \<open>ConstraintBuilder\<close>

text \<open>
  A constraint dict, by its \<open>'type'\<close>; the \<open>'description'\<close> string is left out, no
  validation reads it.
\<close>

datatype constraint =
    MaxHearingsPerDay int
  | MaxHearingsPerJudge int
  | PriorityDeadline rat int
  | MinimumGap string int
  | WorkingHoursLimit rat rat int
  | JudgeSpecialization int "string list"
  | NoWeekends
  | HolidayExclusion "date list"
  | BalancedWorkload rat

fun constraint_type :: "constraint \<Rightarrow> string" where
  "constraint_type (MaxHearingsPerDay v) = ''max_hearings_per_day''"
| "constraint_type (MaxHearingsPerJudge v) = ''max_hearings_per_judge''"
| "constraint_type (PriorityDeadline t d) = ''priority_deadline''"
| "constraint_type (MinimumGap ct d) = ''minimum_gap''"
| "constraint_type (WorkingHoursLimit h a m) = ''working_hours_limit''"
| "constraint_type (JudgeSpecialization j cts) = ''judge_specialization''"
| "constraint_type NoWeekends = ''no_weekends''"
| "constraint_type (HolidayExclusion hs) = ''holiday_exclusion''"
| "constraint_type (BalancedWorkload t) = ''balanced_workload''"

definition add_max_hearings_per_day :: "int \<Rightarrow> constraint list \<Rightarrow> py_error + constraint list" where
  "add_max_hearings_per_day max_hearings cs = Inr (cs @ [MaxHearingsPerDay max_hearings])"

definition add_max_hearings_per_judge :: "int \<Rightarrow> constraint list \<Rightarrow> py_error + constraint list" where
  "add_max_hearings_per_judge max_hearings cs = Inr (cs @ [MaxHearingsPerJudge max_hearings])"


datatype violation =
    DayViolation date nat int
  | JudgeViolation int date nat int
  | DeadlineViolation string rat int
  | WeekendViolation string date
  | HolidayViolation string date

fun violation_type :: "violation \<Rightarrow> string" where
  "violation_type (DayViolation d n v) = ''max_hearings_per_day''"
| "violation_type (JudgeViolation j d n v) = ''max_hearings_per_judge''"
| "violation_type (DeadlineViolation c p d) = ''priority_deadline''"
| "violation_type (WeekendViolation c d) = ''no_weekends''"
| "violation_type (HolidayViolation c d) = ''holiday_exclusion''"

text \<open>
  \<open>df.groupby(keys).size()\<close>: the groups in ascending key order with their sizes;
  the column access raises \<open>KeyError\<close> for a column the frame does not have.
\<close>

definition groupby_size :: "('k::linorder) list \<Rightarrow> ('k \<times> nat) list" where
  "groupby_size ks = map (\<lambda>k. (k, length (filter (\<lambda>x. x = k) ks))) (sort (remdups ks))"

definition has_column :: "schedule_df \<Rightarrow> string \<Rightarrow> bool" where
  "has_column df c \<longleftrightarrow> c \<in> set (columns df)"

text \<open>A loop that extends a list by what each step returns, stopped by the first error.\<close>

fun extend_all :: "('a \<Rightarrow> py_error + 'b list) \<Rightarrow> 'a list \<Rightarrow> py_error + 'b list" where
  "extend_all f [] = Inr []"
| "extend_all f (x # xs) =
     (case f x of
        Inl e \<Rightarrow> Inl e
      | Inr ys \<Rightarrow> (case extend_all f xs of Inl e \<Rightarrow> Inl e | Inr zs \<Rightarrow> Inr (ys @ zs)))"

definition validate_max_hearings_per_day :: "schedule_df \<Rightarrow> int \<Rightarrow> py_error + violation list" where
  "validate_max_hearings_per_day df max_allowed =
     (if \<not> has_column df ''hearing_date'' then Inl (KeyError ''hearing_date'')
      else Inr (map (\<lambda>(d, n). DayViolation d n max_allowed)
                 (filter (\<lambda>(d, n). int n > max_allowed)
                    (groupby_size (map hearing_date (rows df))))))"

definition validate_max_hearings_per_judge :: "schedule_df \<Rightarrow> int \<Rightarrow> py_error + violation list" where
  "validate_max_hearings_per_judge df max_allowed =
     (if \<not> has_column df ''judge_id'' then Inl (KeyError ''judge_id'')
      else if \<not> has_column df ''hearing_date'' then Inl (KeyError ''hearing_date'')
      else Inr (map (\<lambda>((j, d), n). JudgeViolation j d n max_allowed)
                 (filter (\<lambda>(k, n). int n > max_allowed)
                    (groupby_size (map (\<lambda>h. (h_judge_id h, hearing_date h)) (rows df))))))"

definition validate_priority_deadline ::
  "date \<Rightarrow> schedule_df \<Rightarrow> rat \<Rightarrow> int \<Rightarrow> py_error + violation list" where
  "validate_priority_deadline today df threshold max_days =
     (if \<not> has_column df ''priority_score'' then Inr []
      else (case date_add today max_days of
              Inl e \<Rightarrow> Inl e
            | Inr deadline \<Rightarrow>
                extend_all
                  (\<lambda>h. if \<not> has_column df ''hearing_date'' then Inl (KeyError ''hearing_date'')
                       else if hearing_date h > deadline then
                         (if \<not> has_column df ''case_number'' then Inl (KeyError ''case_number'')
                          else Inr [DeadlineViolation (h_case_number h) (h_priority_score h) max_days])
                       else Inr [])
                  (filter (\<lambda>h. h_priority_score h \<ge> threshold) (rows df))))"

definition validate_no_weekends :: "schedule_df \<Rightarrow> py_error + violation list" where
  "validate_no_weekends df =
     extend_all
       (\<lambda>h. if \<not> has_column df ''hearing_date'' then Inl (KeyError ''hearing_date'')
            else if weekday (hearing_date h) \<ge> 5 then
              (if \<not> has_column df ''case_number'' then Inl (KeyError ''case_number'')
               else Inr [WeekendViolation (h_case_number h) (hearing_date h)])
            else Inr [])
       (rows df)"

definition validate_holiday_exclusion :: "schedule_df \<Rightarrow> date list \<Rightarrow> py_error + violation list" where
  "validate_holiday_exclusion df holidays =
     extend_all
       (\<lambda>h. if \<not> has_column df ''hearing_date'' then Inl (KeyError ''hearing_date'')
            else if hearing_date h \<in> set holidays then
              (if \<not> has_column df ''case_number'' then Inl (KeyError ''case_number'')
               else Inr [HolidayViolation (h_case_number h) (hearing_date h)])
            else Inr [])
       (rows df)"

text \<open>The if/elif chain of \<open>validate_schedule\<close>: four kinds have no branch.\<close>

fun validate_constraint :: "date \<Rightarrow> schedule_df \<Rightarrow> constraint \<Rightarrow> py_error + violation list" where
  "validate_constraint today df (MaxHearingsPerDay v) = validate_max_hearings_per_day df v"
| "validate_constraint today df (MaxHearingsPerJudge v) = validate_max_hearings_per_judge df v"
| "validate_constraint today df (PriorityDeadline t d) = validate_priority_deadline today df t d"
| "validate_constraint today df NoWeekends = validate_no_weekends df"
| "validate_constraint today df (HolidayExclusion hs) = validate_holiday_exclusion df hs"
| "validate_constraint today df _ = Inr []"

text \<open>
  \<open>ConstraintBuilder.validate_schedule\<close>; \<open>today\<close> is \<open>datetime.now().date()\<close>, and
  \<open>judges_df\<close> is not read.
\<close>

definition validate_schedule ::
  "date \<Rightarrow> constraint list \<Rightarrow> schedule_df \<Rightarrow> py_error + (bool \<times> violation list)" where
  "validate_schedule today constraints df =
     (case extend_all (validate_constraint today df) constraints of
        Inl e \<Rightarrow> Inl e
      | Inr violations \<Rightarrow> Inr (length violations = 0, violations))"

definition checked_types :: "string list" where
  "checked_types = [''max_hearings_per_day'', ''max_hearings_per_judge'', ''priority_deadline'',
     ''no_weekends'', ''holiday_exclusion'']"

definition skipped_types :: "string list" where
  "skipped_types = [''minimum_gap'', ''judge_specialization'', ''working_hours_limit'',
     ''balanced_workload'']"

section \<open>calculate_efficiency\<close>

text \<open>
  \<open>round(x, 2)\<close> on exact rationals (round half to even); the binary representation
  error of a Python float is not modelled.
\<close>

definition round_half_even :: "rat \<Rightarrow> int" where
  "round_half_even x =
     (let f = \<lfloor>x\<rfloor>; r = x - of_int f in
      if r < 1 / 2 then f else if r > 1 / 2 then f + 1 else if even f then f else f + 1)"

definition py_round2 :: "rat \<Rightarrow> rat" where
  "py_round2 x = of_int (round_half_even (x * 100)) / 100"

definition nunique :: "'a list \<Rightarrow> nat" where
  "nunique xs = length (remdups xs)"

text \<open>
  Lines 112 to 123 of \<open>calculate_efficiency\<close>: the three metrics computed first, each
  behind an unguarded column access. The metrics after them (standard deviation, means,
  days to hearing) are floating point and read only columns checked here or guarded by
  \<open>in schedule_df.columns\<close>.
\<close>

record efficiency_metrics =
  coverage_rate :: rat
  judge_utilization :: rat
  avg_hearings_per_day :: rat

definition calculate_efficiency ::
  "schedule_df \<Rightarrow> cases_df \<Rightarrow> judges_df \<Rightarrow> py_error + efficiency_metrics" where
  "calculate_efficiency df cases judges =
     (let total_cases = length (case_rows cases) in
      if \<not> has_column df ''case_id'' then Inl (KeyError ''case_id'')
      else
        (let scheduled_cases = nunique (map h_case_id (rows df));
             coverage = (if total_cases > 0
                         then py_round2 (of_nat scheduled_cases / of_nat total_cases * 100) else 0);
             total_judges = length (judge_rows judges) in
         if \<not> has_column df ''judge_id'' then Inl (KeyError ''judge_id'')
         else
           (let judges_assigned = nunique (map h_judge_id (rows df));
                utilization = (if total_judges > 0
                               then py_round2 (of_nat judges_assigned / of_nat total_judges * 100)
                               else 0) in
            if \<not> has_column df ''hearing_date'' then Inl (KeyError ''hearing_date'')
            else
              (let days_scheduled = nunique (map hearing_date (rows df)) in
               Inr \<lparr>coverage_rate = coverage, judge_utilization = utilization,
                    avg_hearings_per_day =
                      (if days_scheduled > 0
                       then py_round2 (of_nat (length (rows df)) / of_nat days_scheduled)
                       else 0)\<rparr>))))"

definition infeasible_solver :: cp_solver where
  "infeasible_solver m = (INFEASIBLE, \<lambda>x. 0)"

definition no_cases :: cases_df where
  "no_cases = \<lparr>has_case_id = True, has_case_number = True, has_priority_score = True,
     case_rows = []\<rparr>"

text \<open>The columns that the loops of the schedulers read are all there.\<close>

definition frames_ok :: "cases_df \<Rightarrow> judges_df \<Rightarrow> bool" where
  "frames_ok cases judges \<longleftrightarrow>
     has_case_id cases \<and> has_case_number cases \<and> has_judge_id judges \<and> has_judge_name judges"

text \<open>
  What the search for a slot reads of a state: the dates of the schedule and the
  two counter dicts, not the cases.
\<close>

definition shape :: "sched_state \<Rightarrow> date list \<times> (date \<rightharpoonup> int) \<times> ((int \<times> date) \<rightharpoonup> int)" where
  "shape st = (map hearing_date (schedule st), daily_hearings st, judge_daily_hearings st)"

fun erase_step :: "py_error + (sched_state \<times> bool)
    \<Rightarrow> py_error + ((date list \<times> (date \<rightharpoonup> int) \<times> ((int \<times> date) \<rightharpoonup> int)) \<times> bool)" where
  "erase_step (Inl e) = Inl e"
| "erase_step (Inr (st, b)) = Inr (shape st, b)"

fun erase_run :: "py_error + sched_state
    \<Rightarrow> py_error + (date list \<times> (date \<rightharpoonup> int) \<times> ((int \<times> date) \<rightharpoonup> int))" where
  "erase_run (Inl e) = Inl e"
| "erase_run (Inr st) = Inr (shape st)"

text \<open>Two case frames with the same columns.\<close>

definition same_columns :: "cases_df \<Rightarrow> cases_df \<Rightarrow> bool" where
  "same_columns cases cases2 \<longleftrightarrow>
     has_case_id cases = has_case_id cases2 \<and> has_case_number cases = has_case_number cases2"

text \<open>
  A judge at the limit on a date, and a date on which the search finds no slot: a
  weekend day, a day at its limit, or a day with every judge at the limit.
\<close>

definition judge_full :: "HearingScheduler \<Rightarrow> sched_state \<Rightarrow> date \<Rightarrow> judge_row \<Rightarrow> bool" where
  "judge_full cfg st d j =
     (case judge_daily_hearings st (judge_id j, d) of
        None \<Rightarrow> False
      | Some k \<Rightarrow> \<not> k < max_hearings_per_judge cfg)"

definition blocked :: "HearingScheduler \<Rightarrow> judges_df \<Rightarrow> sched_state \<Rightarrow> date \<Rightarrow> bool" where
  "blocked cfg judges st d \<longleftrightarrow>
     weekday d \<ge> 5 \<or>
     (case daily_hearings st d of None \<Rightarrow> False | Some m \<Rightarrow> m \<ge> max_hearings_per_day cfg) \<or>
     list_all (judge_full cfg st d) (judge_rows judges)"

definition twin_cases :: cases_df where
  "twin_cases = \<lparr>has_case_id = True, has_case_number = True, has_priority_score = True,
     case_rows =
       [\<lparr>case_id = 1, case_number = ''A/1'', priority_score = 60\<rparr>,
        \<lparr>case_id = 1, case_number = ''A/1-bis'', priority_score = 40\<rparr>]\<rparr>"

text \<open>
  A solver for the examples: it proposes every case for judge 0 on day 0 and reports
  FEASIBLE when that satisfies the model, INFEASIBLE otherwise.
\<close>

definition first_slot :: "cp_var \<Rightarrow> int" where
  "first_slot x = (case x of (c, j, d) \<Rightarrow> if j = 0 \<and> d = 0 then 1 else 0)"

definition first_slot_solver :: cp_solver where
  "first_slot_solver m = (if feasible m first_slot then (FEASIBLE, first_slot)
                          else (INFEASIBLE, \<lambda>x. 0))"

definition roomy_scheduler :: HearingScheduler where
  "roomy_scheduler = \<lparr>max_hearings_per_day = 20, max_hearings_per_judge = 5,
     working_hours_per_day = 6, avg_hearing_duration = 1 / 2\<rparr>"

definition first_day_schedule :: "hearing list" where
  "first_day_schedule =
     [\<lparr>h_case_id = 1, h_case_number = ''A/1'', h_judge_id = 7, h_judge_name = ''Rao'',
       hearing_date = 738886, h_priority_score = 10, estimated_duration_hours = 1 / 2\<rparr>,
      \<lparr>h_case_id = 2, h_case_number = ''B/2'', h_judge_id = 7, h_judge_name = ''Rao'',
       hearing_date = 738886, h_priority_score = 90, estimated_duration_hours = 1 / 2\<rparr>,
      \<lparr>h_case_id = 3, h_case_number = ''C/3'', h_judge_id = 7, h_judge_name = ''Rao'',
       hearing_date = 738886, h_priority_score = 50, estimated_duration_hours = 1 / 2\<rparr>]"


text \<open>Inputs of the examples: 2024-01-01, a Monday, is day 738886.\<close>

definition example_scheduler :: HearingScheduler where
  "example_scheduler = \<lparr>max_hearings_per_day = 20, max_hearings_per_judge = 2,
     working_hours_per_day = 6, avg_hearing_duration = 1 / 2\<rparr>"

definition example_cases :: cases_df where
  "example_cases = \<lparr>has_case_id = True, has_case_number = True, has_priority_score = True,
     case_rows =
     [\<lparr>case_id = 1, case_number = ''A/1'', priority_score = 10\<rparr>,
      \<lparr>case_id = 2, case_number = ''B/2'', priority_score = 90\<rparr>,
      \<lparr>case_id = 3, case_number = ''C/3'', priority_score = 50\<rparr>]\<rparr>"

definition example_judges :: judges_df where
  "example_judges = \<lparr>has_judge_id = True, has_judge_name = True,
     judge_rows = [\<lparr>judge_id = 7, judge_name = ''Rao''\<rparr>]\<rparr>"

definition example_schedule :: "hearing list" where
  "example_schedule =
     [\<lparr>h_case_id = 2, h_case_number = ''B/2'', h_judge_id = 7, h_judge_name = ''Rao'',
       hearing_date = 738886, h_priority_score = 90, estimated_duration_hours = 1 / 2\<rparr>,
      \<lparr>h_case_id = 3, h_case_number = ''C/3'', h_judge_id = 7, h_judge_name = ''Rao'',
       hearing_date = 738886, h_priority_score = 50, estimated_duration_hours = 1 / 2\<rparr>,
      \<lparr>h_case_id = 1, h_case_number = ''A/1'', h_judge_id = 7, h_judge_name = ''Rao'',
       hearing_date = 738887, h_priority_score = 10, estimated_duration_hours = 1 / 2\<rparr>]"

section \<open>The heuristic keeps its counters and never fails inside the calendar\<close>

lemma day_count_snoc:
  "day_count (hs @ [h]) d = day_count hs d + (if hearing_date h = d then 1 else 0)"
  by (simp add: day_count_def)

lemma judge_day_count_snoc:
  "judge_day_count (hs @ [h]) j d =
     judge_day_count hs j d + (if h_judge_id h = j \<and> hearing_date h = d then 1 else 0)"
  by (simp add: judge_day_count_def)

lemma counters_ok_warnings [simp]:
  "counters_ok cfg jids days (st\<lparr>warnings := w\<rparr>) = counters_ok cfg jids days st"
  by (simp add: counters_ok_def)

lemma try_judges_inv:
  assumes "counters_ok cfg jids days st" and "hdate \<in> days"
    and "judge_id ` set js \<subseteq> jids"
    and "daily_hearings st hdate = Some m" and "m < max_hearings_per_day cfg"
  shows "(frames_ok cases judges \<longrightarrow>
            (\<exists>st' b. try_judges cfg cases judges c hdate js st = Inr (st', b))) \<and>
         (\<forall>st' b. try_judges cfg cases judges c hdate js st = Inr (st', b) \<longrightarrow>
            counters_ok cfg jids days st' \<and> (\<not> b \<longrightarrow> st' = st))"
  using assms
proof (induction js)
  case Nil
  then show ?case by auto
next
  case (Cons j js)
  from Cons.prems have jin: "judge_id j \<in> jids" by simp
  with Cons.prems have look:
    "judge_daily_hearings st (judge_id j, hdate)
       = Some (int (judge_day_count (schedule st) (judge_id j) hdate))"
    by (simp add: counters_ok_def)
  from Cons.prems have m: "m = int (day_count (schedule st) hdate)"
    by (simp add: counters_ok_def)
  show ?case
  proof (cases "int (judge_day_count (schedule st) (judge_id j) hdate) < max_hearings_per_judge cfg")
    case True
    with look Cons.prems m show ?thesis
      by (auto simp: counters_ok_def day_count_snoc judge_day_count_snoc frames_ok_def)
  next
    case False
    with look Cons show ?thesis by (simp add: frames_ok_def)
  qed
qed

lemma try_days_inv:
  assumes "counters_ok cfg jids days st"
    and "\<forall>i\<in>set ks. date_add cur i = Inr (cur + i) \<and> cur + i \<in> days"
    and "judge_id ` set (judge_rows judges) \<subseteq> jids"
  shows "(frames_ok cases judges \<longrightarrow>
            (\<exists>st' b. try_days cfg cases judges c cur ks st = Inr (st', b))) \<and>
         (\<forall>st' b. try_days cfg cases judges c cur ks st = Inr (st', b) \<longrightarrow>
            counters_ok cfg jids days st' \<and> (\<not> b \<longrightarrow> st' = st))"
  using assms
proof (induction ks)
  case Nil
  then show ?case by auto
next
  case (Cons i ks)
  let ?d = "cur + i"
  from Cons.prems have da: "date_add cur i = Inr ?d" and din: "?d \<in> days" by simp_all
  from Cons.prems din have look: "daily_hearings st ?d = Some (int (day_count (schedule st) ?d))"
    by (simp add: counters_ok_def)
  from Cons have IH: "(frames_ok cases judges \<longrightarrow>
            (\<exists>st' b. try_days cfg cases judges c cur ks st = Inr (st', b))) \<and>
         (\<forall>st' b. try_days cfg cases judges c cur ks st = Inr (st', b) \<longrightarrow>
            counters_ok cfg jids days st' \<and> (\<not> b \<longrightarrow> st' = st))" by simp
  show ?case
  proof (cases "weekday ?d \<ge> 5 \<or> int (day_count (schedule st) ?d) \<ge> max_hearings_per_day cfg")
    case True
    with da look IH show ?thesis by auto
  next
    case False
    then have lt: "int (day_count (schedule st) ?d) < max_hearings_per_day cfg" by simp
    note tj = try_judges_inv [OF Cons.prems(1) din Cons.prems(3) look lt, of cases judges c]
    show ?thesis
    proof (cases "try_judges cfg cases judges c ?d (judge_rows judges) st")
      case (Inl e)
      with tj da look False show ?thesis by auto
    next
      case (Inr r)
      obtain st1 b1 where r: "r = (st1, b1)" by (cases r)
      with Inr tj have ok: "counters_ok cfg jids days st1" and same: "\<not> b1 \<longrightarrow> st1 = st"
        by auto
      show ?thesis
      proof (cases b1)
        case True
        with da look False Inr r ok show ?thesis by auto
      next
        case b: False
        with same have "st1 = st" by simp
        with da look False Inr r b IH show ?thesis by simp
      qed
    qed
  qed
qed

lemma schedule_cases_inv:
  assumes "counters_ok cfg jids days st"
    and "\<forall>i\<in>set (range_days n). date_add cur i = Inr (cur + i) \<and> cur + i \<in> days"
    and "judge_id ` set (judge_rows judges) \<subseteq> jids"
  shows "(frames_ok cases judges \<longrightarrow>
            (\<exists>st'. schedule_cases cfg cases judges cur n cs st = Inr st')) \<and>
         (\<forall>st'. schedule_cases cfg cases judges cur n cs st = Inr st' \<longrightarrow>
            counters_ok cfg jids days st')"
  using assms
proof (induction cs arbitrary: st)
  case Nil
  then show ?case by simp
next
  case (Cons c cs)
  note td = try_days_inv [OF Cons.prems, of cases c]
  show ?case
  proof (cases "try_days cfg cases judges c cur (range_days n) st")
    case (Inl e)
    with td show ?thesis by auto
  next
    case (Inr r)
    obtain st1 b1 where r: "r = (st1, b1)" by (cases r)
    with Inr td have ok: "counters_ok cfg jids days st1" by auto
    then have ok': "counters_ok cfg jids days (st1\<lparr>warnings := warnings st1 @ [case_number c]\<rparr>)"
      by simp
    from Cons.IH [OF ok Cons.prems(2,3)] Cons.IH [OF ok' Cons.prems(2,3)] Inr r
    show ?thesis by (auto simp: frames_ok_def)
  qed
qed

lemma horizon_dates_ok:
  assumes "\<forall>i\<in>set ks. 1 \<le> cur + i \<and> cur + i \<le> date_max"
  shows "horizon_dates cur ks = Inr (map (\<lambda>i. cur + i) ks)"
  using assms by (induction ks) (simp_all add: date_add_def)

lemma range_days_bounds: "i \<in> set (range_days n) \<Longrightarrow> 0 \<le> i \<and> i < n"
  by (auto simp: range_days_def)

lemma horizon_fits_dates:
  assumes "horizon_fits cur n" and "i \<in> set (range_days n)"
  shows "date_add cur i = Inr (cur + i)"
  using assms range_days_bounds [of i n] by (auto simp: horizon_fits_def date_add_def)

lemma horizon_fits_horizon_dates:
  assumes "horizon_fits cur n"
  shows "horizon_dates cur (range_days n) = Inr (map (\<lambda>i. cur + i) (range_days n))"
proof (rule horizon_dates_ok, rule ballI)
  fix i assume "i \<in> set (range_days n)"
  with assms range_days_bounds [of i n] show "1 \<le> cur + i \<and> cur + i \<le> date_max"
    by (auto simp: horizon_fits_def)
qed

lemma horizon_dates_Inr:
  "horizon_dates cur ks = Inr ds \<Longrightarrow>
     ds = map (\<lambda>i. cur + i) ks \<and> (\<forall>i\<in>set ks. date_add cur i = Inr (cur + i))"
  by (induction ks arbitrary: ds) (auto simp: date_add_def split: sum.splits if_splits)

lemma map_of_const_zero:
  "d \<in> set ds \<Longrightarrow> map_of (map (\<lambda>d. (f d, 0::int)) ds) (f d) = Some 0"
  by (induction ds) auto

lemma map_of_const_zero_other:
  "map_of (map (\<lambda>d. ((j::int, d), 0::int)) ds) (j', d') = None \<or>
   map_of (map (\<lambda>d. ((j, d), 0::int)) ds) (j', d') = Some 0"
  by (induction ds) auto

lemma init_judge_daily_Inr:
  assumes "horizon_dates cur (range_days n) = Inr ds"
  shows "\<exists>m. init_judge_daily_hearings cur n jids = Inr m \<and>
           (\<forall>j\<in>set jids. \<forall>d\<in>set ds. m (j, d) = Some 0)"
proof (induction jids)
  case Nil
  then show ?case by simp
next
  case (Cons j jids)
  then obtain m where m: "init_judge_daily_hearings cur n jids = Inr m"
    and m0: "\<forall>j\<in>set jids. \<forall>d\<in>set ds. m (j, d) = Some 0" by blast
  have new: "\<forall>d\<in>set ds. map_of (map (\<lambda>d. ((j, d), 0::int)) ds) (j, d) = Some 0"
    using map_of_const_zero [of _ ds "\<lambda>d. (j, d)"] by simp
  have "(m ++ map_of (map (\<lambda>d. ((j, d), 0::int)) ds)) (j', d) = Some 0"
    if "j' \<in> set (j # jids)" "d \<in> set ds" for j' d
    using that m0 new map_of_const_zero_other [of j ds j' d]
    by (auto simp: map_add_def split: option.splits)
  with m assms show ?case by simp
qed

lemma init_daily_Inr:
  assumes "horizon_dates cur (range_days n) = Inr ds"
  shows "\<exists>m. init_daily_hearings cur n = Inr m \<and> (\<forall>d\<in>set ds. m d = Some 0)"
  using assms map_of_const_zero [of _ ds "\<lambda>d. d"] by (simp add: init_daily_hearings_def)

lemma initial_state_ok:
  assumes "horizon_dates cur (range_days n) = Inr ds" and "has_judge_id judges"
  shows "\<exists>st0. initial_state cur n judges = Inr st0 \<and> schedule st0 = [] \<and> warnings st0 = [] \<and>
           counters_ok cfg (judge_id ` set (judge_rows judges))
             ((\<lambda>i. cur + i) ` set (range_days n)) st0"
proof -
  from horizon_dates_Inr [OF assms(1)] have dsm: "ds = map (\<lambda>i. cur + i) (range_days n)" by simp
  from init_daily_Inr [OF assms(1)] obtain dh where dh: "init_daily_hearings cur n = Inr dh"
    and dh0: "\<forall>d\<in>set ds. dh d = Some 0" by blast
  from init_judge_daily_Inr [OF assms(1), of "map judge_id (judge_rows judges)"] obtain jdh
    where jdh: "init_judge_daily_hearings cur n (map judge_id (judge_rows judges)) = Inr jdh"
    and jdh0: "\<forall>j\<in>set (map judge_id (judge_rows judges)). \<forall>d\<in>set ds. jdh (j, d) = Some 0"
    by blast
  show ?thesis
    using dh jdh dh0 jdh0 dsm assms(2)
    by (simp add: initial_state_def counters_ok_def day_count_def judge_day_count_def)
qed

lemma initial_state_Inr:
  "initial_state cur n judges = Inr st0 \<Longrightarrow>
     has_judge_id judges \<and> (\<exists>ds. horizon_dates cur (range_days n) = Inr ds)"
  by (auto simp: initial_state_def init_daily_hearings_def split: sum.splits if_splits)

lemma heuristic_run:
  assumes "schedule_hearings_heuristic srt cfg cases judges cur n = Inr (df, w)"
  shows "\<exists>st0 st. initial_state cur n judges = Inr st0 \<and>
           schedule st0 = [] \<and> warnings st0 = [] \<and>
           counters_ok cfg (judge_id ` set (judge_rows judges))
             ((\<lambda>i. cur + i) ` set (range_days n)) st0 \<and>
           (\<forall>i\<in>set (range_days n). date_add cur i = Inr (cur + i)) \<and>
           schedule_cases cfg cases judges cur n (processing_order srt cases) st0 = Inr st \<and>
           counters_ok cfg (judge_id ` set (judge_rows judges))
             ((\<lambda>i. cur + i) ` set (range_days n)) st \<and>
           df = pd_DataFrame (schedule st) \<and> w = warnings st"
proof -
  from assms obtain st0 where st0: "initial_state cur n judges = Inr st0"
    by (auto simp: schedule_hearings_heuristic_def split: sum.splits)
  from initial_state_Inr [OF st0] obtain ds
    where ds: "horizon_dates cur (range_days n) = Inr ds" and hj: "has_judge_id judges" by blast
  let ?days = "(\<lambda>i. cur + i) ` set (range_days n)"
  from initial_state_ok [OF ds hj, of cfg] st0
  have ok0: "counters_ok cfg (judge_id ` set (judge_rows judges)) ?days st0"
    and e: "schedule st0 = []" "warnings st0 = []" by simp_all
  have dates: "\<forall>i\<in>set (range_days n). date_add cur i = Inr (cur + i) \<and> cur + i \<in> ?days"
    using horizon_dates_Inr [OF ds] by simp
  from assms st0 obtain st
    where st: "schedule_cases cfg cases judges cur n (processing_order srt cases) st0 = Inr st"
      and r: "df = pd_DataFrame (schedule st)" "w = warnings st"
    by (auto simp: schedule_hearings_heuristic_def split: sum.splits)
  from schedule_cases_inv [OF ok0 dates subset_refl, of cases "processing_order srt cases"] st
  have "counters_ok cfg (judge_id ` set (judge_rows judges)) ?days st" by simp
  with st0 e ok0 dates st r show ?thesis by auto
qed

lemma heuristic_returns:
  assumes "horizon_fits cur n" and "frames_ok cases judges"
  shows "\<exists>st0 st. initial_state cur n judges = Inr st0 \<and>
           schedule_cases cfg cases judges cur n (processing_order srt cases) st0 = Inr st \<and>
           schedule_hearings_heuristic srt cfg cases judges cur n
             = Inr (pd_DataFrame (schedule st), warnings st)"
proof -
  let ?days = "(\<lambda>i. cur + i) ` set (range_days n)"
  note ds = horizon_fits_horizon_dates [OF assms(1)]
  from assms(2) have hj: "has_judge_id judges" by (simp add: frames_ok_def)
  from initial_state_ok [OF ds hj, of cfg] obtain st0
    where st0: "initial_state cur n judges = Inr st0"
      and ok0: "counters_ok cfg (judge_id ` set (judge_rows judges)) ?days st0" by blast
  have "\<forall>i\<in>set (range_days n). date_add cur i = Inr (cur + i) \<and> cur + i \<in> ?days"
    using horizon_dates_Inr [OF ds] by simp
  from schedule_cases_inv [OF ok0 this subset_refl, of cases "processing_order srt cases"] assms(2)
  obtain st where "schedule_cases cfg cases judges cur n (processing_order srt cases) st0 = Inr st"
    by blast
  with st0 show ?thesis by (simp add: schedule_hearings_heuristic_def)
qed

text \<open>
  Claim C1. In every schedule that \<open>schedule_hearings_heuristic\<close> produces, each
  (judge_id, date) pair has at most \<open>max_hearings_per_judge\<close> assignments and each
  date has at most \<open>max_hearings_per_day\<close> assignments: this holds for every group
  that occurs in the schedule, and for every pair and date whatever when the limit is
  not negative.
\<close>

theorem heuristic_respects_capacity:
  assumes "schedule_hearings_heuristic srt cfg cases judges start_date num_days = Inr (df, w)"
  shows "(\<forall>h\<in>set (rows df).
            int (judge_day_count (rows df) (h_judge_id h) (hearing_date h))
              \<le> max_hearings_per_judge cfg \<and>
            int (day_count (rows df) (hearing_date h)) \<le> max_hearings_per_day cfg) \<and>
         (0 \<le> max_hearings_per_judge cfg \<longrightarrow>
            (\<forall>j d. int (judge_day_count (rows df) j d) \<le> max_hearings_per_judge cfg)) \<and>
         (0 \<le> max_hearings_per_day cfg \<longrightarrow>
            (\<forall>d. int (day_count (rows df) d) \<le> max_hearings_per_day cfg))"
proof -
  from heuristic_run [OF assms] obtain st
    where ok: "counters_ok cfg (judge_id ` set (judge_rows judges))
                 ((\<lambda>i. start_date + i) ` set (range_days num_days)) st"
      and df: "df = pd_DataFrame (schedule st)" by blast
  have r: "rows df = schedule st" by (simp add: df pd_DataFrame_def)
  from ok have day: "\<And>d. 0 < day_count (schedule st) d \<Longrightarrow>
      int (day_count (schedule st) d) \<le> max_hearings_per_day cfg"
    and jd: "\<And>j d. 0 < judge_day_count (schedule st) j d \<Longrightarrow>
      int (judge_day_count (schedule st) j d) \<le> max_hearings_per_judge cfg"
    by (simp_all add: counters_ok_def)
  have pos: "0 < judge_day_count (schedule st) (h_judge_id h) (hearing_date h) \<and>
             0 < day_count (schedule st) (hearing_date h)" if "h \<in> set (schedule st)" for h
    using that by (auto simp: judge_day_count_def day_count_def filter_empty_conv)
  have a: "\<forall>h\<in>set (rows df).
            int (judge_day_count (rows df) (h_judge_id h) (hearing_date h))
              \<le> max_hearings_per_judge cfg \<and>
            int (day_count (rows df) (hearing_date h)) \<le> max_hearings_per_day cfg"
    using pos day jd by (simp add: r)
  have b: "int (judge_day_count (rows df) j d) \<le> max_hearings_per_judge cfg"
    if "0 \<le> max_hearings_per_judge cfg" for j d
    using jd [of j d] that by (cases "judge_day_count (schedule st) j d = 0") (simp_all add: r)
  have c: "int (day_count (rows df) d) \<le> max_hearings_per_day cfg"
    if "0 \<le> max_hearings_per_day cfg" for d
    using day [of d] that by (cases "day_count (schedule st) d = 0") (simp_all add: r)
  from a b c show ?thesis by blast
qed

theorem heuristic_respects_capacity_witness:
  "schedule_hearings_heuristic sort_values_stable example_scheduler example_cases
     example_judges 738886 5 = Inr (pd_DataFrame example_schedule, []) \<and>
   int (judge_day_count example_schedule 7 738886) \<le> 2 \<and>
   int (day_count example_schedule 738887) \<le> 20"
proof -
  have run: "schedule_hearings_heuristic sort_values_stable example_scheduler example_cases
     example_judges 738886 5 = Inr (pd_DataFrame example_schedule, [])"
    by code_simp
  have r: "rows (pd_DataFrame example_schedule) = example_schedule"
    by (simp add: pd_DataFrame_def)
  from heuristic_respects_capacity [OF run]
  have "int (judge_day_count example_schedule 7 738886) \<le> max_hearings_per_judge example_scheduler"
    and "int (day_count example_schedule 738887) \<le> max_hearings_per_day example_scheduler"
    unfolding r by (simp_all add: example_scheduler_def)
  with run show ?thesis by (simp add: example_scheduler_def)
qed

section \<open>No judges\<close>



lemma sort_values_stable_contract: "sort_values_contract sort_values_stable"
proof -
  have "sorted_wrt (\<lambda>a b. priority_score a \<ge> priority_score b) (sort_values_stable xs)" for xs
  proof -
    have "sorted (map (\<lambda>c. - priority_score c) (sort_key (\<lambda>c. - priority_score c) xs))"
      by (rule sorted_sort_key)
    then show ?thesis
      by (simp add: sort_values_stable_def sorted_map sorted_wrt_iff_nth_less)
  qed
  then show ?thesis by (simp add: sort_values_contract_def sort_values_stable_def)
qed




section \<open>The fallback of the optimized scheduler\<close>

text \<open>
  Claim C3 as stated fails in its last part: the fallback raises what the heuristic
  raises, \<open>OverflowError\<close> for a horizon that runs past 9999-12-31 and \<open>KeyError\<close> for
  the judge frame \<open>pd.DataFrame()\<close>.
\<close>

theorem optimized_fallback_raises:
  "schedule_hearings_optimized sort_values_stable None exact_coefficient example_scheduler
     example_cases example_judges 3652059 2 = Inl OverflowError \<and>
   schedule_hearings_optimized sort_values_stable (Some infeasible_solver) exact_coefficient
     example_scheduler example_cases empty_judges_df 738886 5 = Inl (KeyError ''judge_id'')"
  by code_simp

text \<open>
  Claim C3 as amended. Without OR-Tools, or with a solver status other than OPTIMAL
  and FEASIBLE, \<open>schedule_hearings_optimized\<close> gives what \<open>schedule_hearings_heuristic\<close>
  gives on the same arguments, a schedule or an error; it is a schedule whenever the
  horizon is inside the calendar and the frames have the columns \<open>case_id\<close>,
  \<open>case_number\<close>, \<open>judge_id\<close> and \<open>judge_name\<close>.
\<close>

theorem optimized_falls_back_to_heuristic:
  assumes "ortools = None \<or>
           (\<exists>solve. ortools = Some solve \<and>
              fst (solve (build_model coef cfg cases judges num_days)) \<noteq> OPTIMAL \<and>
              fst (solve (build_model coef cfg cases judges num_days)) \<noteq> FEASIBLE)"
  shows "schedule_hearings_optimized srt ortools coef cfg cases judges start_date num_days
           = schedule_hearings_heuristic srt cfg cases judges start_date num_days \<and>
         (horizon_fits start_date num_days \<and> frames_ok cases judges \<longrightarrow>
            (\<exists>r. schedule_hearings_optimized srt ortools coef cfg cases judges start_date num_days
                   = Inr r))"
proof -
  from assms
  have eq: "schedule_hearings_optimized srt ortools coef cfg cases judges start_date num_days
           = schedule_hearings_heuristic srt cfg cases judges start_date num_days"
    by (auto simp: schedule_hearings_optimized_def Let_def)
  moreover have "\<exists>r. schedule_hearings_heuristic srt cfg cases judges start_date num_days = Inr r"
    if "horizon_fits start_date num_days" "frames_ok cases judges"
    using heuristic_returns [OF that, of cfg srt] by blast
  ultimately show ?thesis by simp
qed

theorem optimized_falls_back_to_heuristic_witness:
  "horizon_fits 738886 5 \<and> frames_ok example_cases example_judges \<and>
   schedule_hearings_optimized sort_values_stable (Some infeasible_solver) exact_coefficient
     example_scheduler example_cases example_judges 738886 5
     = Inr (pd_DataFrame example_schedule, []) \<and>
   schedule_hearings_optimized sort_values_stable None exact_coefficient example_scheduler
     example_cases example_judges 738886 5
     = Inr (pd_DataFrame example_schedule, [])"
proof -
  have run: "schedule_hearings_heuristic sort_values_stable example_scheduler example_cases
     example_judges 738886 5 = Inr (pd_DataFrame example_schedule, [])"
    by code_simp
  have h: "horizon_fits 738886 5" by (simp add: horizon_fits_def date_max_def)
  have f: "frames_ok example_cases example_judges"
    by (simp add: frames_ok_def example_cases_def example_judges_def)
  have a: "Some infeasible_solver = None \<or>
           (\<exists>solve. Some infeasible_solver = Some solve \<and>
              fst (solve (build_model exact_coefficient example_scheduler example_cases
                     example_judges 5)) \<noteq> OPTIMAL \<and>
              fst (solve (build_model exact_coefficient example_scheduler example_cases
                     example_judges 5)) \<noteq> FEASIBLE)"
    by (simp add: infeasible_solver_def)
  have b: "(None :: cp_solver option) = None \<or>
           (\<exists>solve. None = Some solve \<and>
              fst (solve (build_model exact_coefficient example_scheduler example_cases
                     example_judges 5)) \<noteq> OPTIMAL \<and>
              fst (solve (build_model exact_coefficient example_scheduler example_cases
                     example_judges 5)) \<noteq> FEASIBLE)"
    by simp
  from optimized_falls_back_to_heuristic [OF a, of sort_values_stable 738886]
    optimized_falls_back_to_heuristic [OF b, of sort_values_stable 738886] run h f
  show ?thesis by simp
qed

section \<open>Rules the validator has no branch for\<close>

lemma extend_all_filter:
  assumes "\<And>x. x \<in> set xs \<Longrightarrow> \<not> P x \<Longrightarrow> f x = Inr []"
  shows "extend_all f (filter P xs) = extend_all f xs"
  using assms by (induction xs) (auto split: sum.splits)

lemma extend_all_member:
  assumes "extend_all f xs = Inr vs" and "v \<in> set vs"
  shows "\<exists>x\<in>set xs. \<exists>ys. f x = Inr ys \<and> v \<in> set ys"
  using assms by (induction xs arbitrary: vs) (auto split: sum.splits)

lemma skipped_iff_not_checked:
  "constraint_type c \<in> set skipped_types \<longleftrightarrow> constraint_type c \<notin> set checked_types"
  by (cases c) (simp_all add: skipped_types_def checked_types_def)

lemma validate_constraint_skipped:
  "constraint_type c \<notin> set checked_types \<Longrightarrow> validate_constraint today df c = Inr []"
  by (cases c) (simp_all add: checked_types_def)

lemma validate_constraint_types:
  assumes "validate_constraint today df c = Inr ys" and "v \<in> set ys"
  shows "violation_type v = constraint_type c"
proof (cases c)
  case (MaxHearingsPerDay m)
  with assms show ?thesis
    by (auto simp: validate_max_hearings_per_day_def split: if_splits)
next
  case (MaxHearingsPerJudge m)
  with assms show ?thesis
    by (auto simp: validate_max_hearings_per_judge_def split: if_splits)
next
  case (PriorityDeadline t k)
  with assms have "validate_priority_deadline today df t k = Inr ys" by simp
  then show ?thesis
  proof (cases "has_column df ''priority_score''")
    case False
    with \<open>validate_priority_deadline today df t k = Inr ys\<close> assms(2) show ?thesis
      by (simp add: validate_priority_deadline_def)
  next
    case True
    with \<open>validate_priority_deadline today df t k = Inr ys\<close>
    obtain deadline where "date_add today k = Inr deadline"
      and ea: "extend_all
                  (\<lambda>h. if \<not> has_column df ''hearing_date'' then Inl (KeyError ''hearing_date'')
                       else if hearing_date h > deadline then
                         (if \<not> has_column df ''case_number'' then Inl (KeyError ''case_number'')
                          else Inr [DeadlineViolation (h_case_number h) (h_priority_score h) k])
                       else Inr [])
                  (filter (\<lambda>h. h_priority_score h \<ge> t) (rows df)) = Inr ys"
      by (auto simp: validate_priority_deadline_def split: sum.splits)
    from extend_all_member [OF ea assms(2)] PriorityDeadline show ?thesis
      by (auto split: if_splits)
  qed
next
  case NoWeekends
  with assms have ea: "extend_all
       (\<lambda>h. if \<not> has_column df ''hearing_date'' then Inl (KeyError ''hearing_date'')
            else if weekday (hearing_date h) \<ge> 5 then
              (if \<not> has_column df ''case_number'' then Inl (KeyError ''case_number'')
               else Inr [WeekendViolation (h_case_number h) (hearing_date h)])
            else Inr [])
       (rows df) = Inr ys"
    by (simp add: validate_no_weekends_def)
  from extend_all_member [OF ea assms(2)] NoWeekends show ?thesis
    by (auto split: if_splits)
next
  case (HolidayExclusion hs)
  with assms have ea: "extend_all
       (\<lambda>h. if \<not> has_column df ''hearing_date'' then Inl (KeyError ''hearing_date'')
            else if hearing_date h \<in> set hs then
              (if \<not> has_column df ''case_number'' then Inl (KeyError ''case_number'')
               else Inr [HolidayViolation (h_case_number h) (hearing_date h)])
            else Inr [])
       (rows df) = Inr ys"
    by (simp add: validate_holiday_exclusion_def)
  from extend_all_member [OF ea assms(2)] HolidayExclusion show ?thesis
    by (auto split: if_splits)
qed (use assms in simp_all)

text \<open>
  Claim C10. \<open>validate_schedule\<close> gives the result it gives on the rules of the five
  kinds it has a branch for: rules of the kinds \<open>minimum_gap\<close>,
  \<open>judge_specialization\<close>, \<open>working_hours_limit\<close> and \<open>balanced_workload\<close> (the kinds
  that are not among the five) can be added or removed anywhere in the rule list
  without changing \<open>is_valid\<close> or the violations, and every violation reported has the
  kind of a rule of the list, one of the five.
\<close>

theorem validate_schedule_ignores_skipped_kinds:
  "validate_schedule today cs df
     = validate_schedule today (filter (\<lambda>c. constraint_type c \<in> set checked_types) cs) df \<and>
   (\<forall>c. constraint_type c \<in> set skipped_types \<longleftrightarrow> constraint_type c \<notin> set checked_types) \<and>
   (\<forall>cs'. filter (\<lambda>c. constraint_type c \<notin> set skipped_types) cs'
            = filter (\<lambda>c. constraint_type c \<notin> set skipped_types) cs \<longrightarrow>
          validate_schedule today cs' df = validate_schedule today cs df) \<and>
   (\<forall>ok vs. validate_schedule today cs df = Inr (ok, vs) \<longrightarrow>
      (\<forall>v\<in>set vs. violation_type v \<in> set checked_types \<and>
                   (\<exists>c\<in>set cs. constraint_type c = violation_type v)))"
proof -
  have flt: "validate_schedule today xs df
     = validate_schedule today (filter (\<lambda>c. constraint_type c \<in> set checked_types) xs) df" for xs
    using extend_all_filter [of xs "\<lambda>c. constraint_type c \<in> set checked_types"
        "validate_constraint today df"]
    by (simp add: validate_schedule_def validate_constraint_skipped)
  have same: "validate_schedule today cs' df = validate_schedule today cs df"
    if "filter (\<lambda>c. constraint_type c \<notin> set skipped_types) cs'
            = filter (\<lambda>c. constraint_type c \<notin> set skipped_types) cs" for cs'
  proof -
    from that have "filter (\<lambda>c. constraint_type c \<in> set checked_types) cs'
        = filter (\<lambda>c. constraint_type c \<in> set checked_types) cs"
      by (simp add: skipped_iff_not_checked)
    with flt [of cs'] flt [of cs] show ?thesis by simp
  qed
  have kinds: "violation_type v \<in> set checked_types \<and>
                   (\<exists>c\<in>set cs. constraint_type c = violation_type v)"
    if r: "validate_schedule today cs df = Inr (ok, vs)" and v: "v \<in> set vs" for ok vs v
  proof -
    from r have "extend_all (validate_constraint today df) cs = Inr vs"
      by (auto simp: validate_schedule_def split: sum.splits)
    from extend_all_member [OF this v] obtain c ys
      where c: "c \<in> set cs" "validate_constraint today df c = Inr ys" "v \<in> set ys" by blast
    then have t: "violation_type v = constraint_type c"
      using validate_constraint_types by blast
    have "constraint_type c \<in> set checked_types"
    proof (rule ccontr)
      assume "constraint_type c \<notin> set checked_types"
      from validate_constraint_skipped [OF this, of today df] c show False by simp
    qed
    with t c(1) show ?thesis by auto
  qed
  from flt same kinds skipped_iff_not_checked show ?thesis by blast
qed

theorem validate_schedule_ignores_skipped_kinds_witness:
  "validate_schedule 738886
     [MinimumGap ''civil'' 7, MaxHearingsPerDay 1, BalancedWorkload (1 / 5),
      WorkingHoursLimit 6 (1 / 2) 12, JudgeSpecialization 7 [''civil'']]
     (pd_DataFrame example_schedule)
     = Inr (False, [DayViolation 738886 2 1]) \<and>
   validate_schedule 738886 [MaxHearingsPerDay 1] (pd_DataFrame example_schedule)
     = Inr (False, [DayViolation 738886 2 1]) \<and>
   violation_type (DayViolation 738886 2 1) \<in> set checked_types"
proof -
  have a: "validate_schedule 738886 [MaxHearingsPerDay 1] (pd_DataFrame example_schedule)
     = Inr (False, [DayViolation 738886 2 1])"
    by code_simp
  have b: "filter (\<lambda>c. constraint_type c \<in> set checked_types)
     [MinimumGap ''civil'' 7, MaxHearingsPerDay 1, BalancedWorkload (1 / 5),
      WorkingHoursLimit 6 (1 / 2) 12, JudgeSpecialization 7 [''civil'']] = [MaxHearingsPerDay 1]"
    by (simp add: checked_types_def)
  from validate_schedule_ignores_skipped_kinds [of 738886
      "[MinimumGap ''civil'' 7, MaxHearingsPerDay 1, BalancedWorkload (1 / 5),
        WorkingHoursLimit 6 (1 / 2) 12, JudgeSpecialization 7 [''civil'']]"
      "pd_DataFrame example_schedule"] a b
  show ?thesis by (simp add: checked_types_def)
qed

section \<open>The empty schedule frame\<close>

lemma groupby_size_days:
  assumes "(d, n) \<in> set (groupby_size (map hearing_date hs))"
  shows "0 < day_count hs d \<and> n = day_count hs d"
proof -
  from assms have "d \<in> hearing_date ` set hs" and "n = day_count hs d"
    by (auto simp: groupby_size_def day_count_def filter_map comp_def)
  then show ?thesis by (auto simp: day_count_def filter_empty_conv)
qed

lemma groupby_size_judge_days:
  assumes "((j, d), n) \<in> set (groupby_size (map (\<lambda>h. (h_judge_id h, hearing_date h)) hs))"
  shows "0 < judge_day_count hs j d \<and> n = judge_day_count hs j d"
proof -
  from assms have "(j, d) \<in> (\<lambda>h. (h_judge_id h, hearing_date h)) ` set hs"
    and "n = judge_day_count hs j d"
    by (auto simp: groupby_size_def judge_day_count_def filter_map comp_def)
  then show ?thesis by (auto simp: judge_day_count_def filter_empty_conv)
qed

lemma counters_ok_day:
  "counters_ok cfg jids days st \<Longrightarrow> 0 < day_count (schedule st) d \<Longrightarrow>
     int (day_count (schedule st) d) \<le> max_hearings_per_day cfg"
  by (simp add: counters_ok_def)

lemma counters_ok_judge_day:
  "counters_ok cfg jids days st \<Longrightarrow> 0 < judge_day_count (schedule st) j d \<Longrightarrow>
     int (judge_day_count (schedule st) j d) \<le> max_hearings_per_judge cfg"
  by (simp add: counters_ok_def)

text \<open>
  A schedule of the heuristic with at least one assignment passes the two capacity
  rules built from the limits of the scheduler.
\<close>

lemma nonempty_heuristic_schedule_validates:
  assumes run: "schedule_hearings_heuristic srt cfg cases judges start_date num_days = Inr (df, w)"
    and ne: "rows df \<noteq> []"
  shows "validate_schedule today
           [MaxHearingsPerDay (max_hearings_per_day cfg),
            MaxHearingsPerJudge (max_hearings_per_judge cfg)] df = Inr (True, [])"
proof -
  from heuristic_run [OF run] obtain st
    where ok: "counters_ok cfg (judge_id ` set (judge_rows judges))
                 ((\<lambda>i. start_date + i) ` set (range_days num_days)) st"
      and df: "df = pd_DataFrame (schedule st)"
    by blast
  from ne df have cols: "columns df = schedule_columns" and rows: "rows df = schedule st"
    by (auto simp: pd_DataFrame_def)
  have hc: "has_column df ''hearing_date''" "has_column df ''judge_id''"
    by (simp_all add: has_column_def cols schedule_columns_def)
  have day: "filter (\<lambda>(d, n). int n > max_hearings_per_day cfg)
               (groupby_size (map hearing_date (schedule st))) = []"
  proof -
    have "\<not> int n > max_hearings_per_day cfg"
      if "(d, n) \<in> set (groupby_size (map hearing_date (schedule st)))" for d n
    proof -
      from groupby_size_days [OF that]
      have p: "0 < day_count (schedule st) d" and n: "n = day_count (schedule st) d"
        by simp_all
      from counters_ok_day [OF ok p] n show ?thesis by simp
    qed
    then show ?thesis by (auto simp: filter_empty_conv)
  qed
  have judge: "filter (\<lambda>(k, n). int n > max_hearings_per_judge cfg)
               (groupby_size (map (\<lambda>h. (h_judge_id h, hearing_date h)) (schedule st))) = []"
  proof -
    have "\<not> int n > max_hearings_per_judge cfg"
      if "((j, d), n) \<in> set (groupby_size (map (\<lambda>h. (h_judge_id h, hearing_date h)) (schedule st)))"
      for j d n
    proof -
      from groupby_size_judge_days [OF that]
      have p: "0 < judge_day_count (schedule st) j d" and n: "n = judge_day_count (schedule st) j d"
        by simp_all
      from counters_ok_judge_day [OF ok p] n show ?thesis by simp
    qed
    then show ?thesis by (auto simp: filter_empty_conv)
  qed
  from hc day judge rows show ?thesis
    by (simp add: validate_schedule_def validate_max_hearings_per_day_def
        validate_max_hearings_per_judge_def)
qed

lemma heuristic_on_no_cases:
  "schedule_hearings_heuristic sort_values_stable example_scheduler no_cases example_judges 738886 5
     = Inr (\<lparr>columns = [], rows = []\<rparr>, [])"
  by code_simp

text \<open>
  Claim C4, at the input where the code leaves it. The heuristic turns an empty case
  list into \<open>pd.DataFrame([])\<close>, a frame without columns, and the validator with the
  two capacity rules of the scheduler's own limits raises \<open>KeyError\<close> on it at
  \<open>groupby('hearing_date')\<close> instead of returning \<open>is_valid = True\<close>.
\<close>

theorem validate_schedule_raises_on_empty_heuristic_schedule:
  "schedule_hearings_heuristic sort_values_stable example_scheduler no_cases example_judges 738886 5
     = Inr (pd_DataFrame [], []) \<and>
   validate_schedule 738886
     [MaxHearingsPerDay (max_hearings_per_day example_scheduler),
      MaxHearingsPerJudge (max_hearings_per_judge example_scheduler)] (pd_DataFrame [])
     = Inl (KeyError ''hearing_date'')"
  using heuristic_on_no_cases
  by (simp add: pd_DataFrame_def validate_schedule_def validate_max_hearings_per_day_def
      has_column_def)

text \<open>
  Claim C7, at the input where the code leaves it. For the empty case list the
  schedule of the heuristic is the frame without columns, and \<open>calculate_efficiency\<close>
  raises \<open>KeyError\<close> at \<open>schedule_df['case_id']\<close>, before the guarded division that
  would give \<open>coverage_rate = 0\<close>.
\<close>

theorem calculate_efficiency_raises_on_empty_heuristic_schedule:
  "schedule_hearings_heuristic sort_values_stable example_scheduler no_cases example_judges 738886 5
     = Inr (pd_DataFrame [], []) \<and>
   calculate_efficiency (pd_DataFrame []) no_cases example_judges = Inl (KeyError ''case_id'')"
  using heuristic_on_no_cases
  by (simp add: pd_DataFrame_def calculate_efficiency_def has_column_def Let_def)

section \<open>Non-positive hearing durations\<close>





section \<open>The slots do not depend on the cases\<close>

lemma shape_warnings [simp]: "shape (st\<lparr>warnings := w\<rparr>) = shape st"
  by (simp add: shape_def)

lemma try_judges_False:
  "try_judges cfg cases judges c hdate js st = Inr (st', False) \<Longrightarrow> st' = st"
  by (induction js) (auto split: if_splits option.splits)

lemma try_days_False:
  "try_days cfg cases judges c cur ks st = Inr (st', False) \<Longrightarrow> st' = st"
proof (induction ks arbitrary: st)
  case Nil
  then show ?case by simp
next
  case (Cons i ks)
  show ?case
  proof (cases "date_add cur i")
    case (Inl e)
    with Cons.prems show ?thesis by simp
  next
    case (Inr hdate)
    show ?thesis
    proof (cases "weekday hdate \<ge> 5")
      case True
      with Inr Cons show ?thesis by simp
    next
      case wd: False
      show ?thesis
      proof (cases "daily_hearings st hdate")
        case None
        with Inr wd Cons.prems show ?thesis by simp
      next
        case (Some m)
        show ?thesis
        proof (cases "m \<ge> max_hearings_per_day cfg")
          case True
          with Inr wd Some Cons show ?thesis by simp
        next
          case cap: False
          show ?thesis
          proof (cases "try_judges cfg cases judges c hdate (judge_rows judges) st")
            case (Inl e)
            with Inr wd Some cap Cons.prems show ?thesis by simp
          next
            case r: (Inr r)
            obtain st1 b1 where r1: "r = (st1, b1)" by (cases r)
            show ?thesis
            proof (cases b1)
              case True
              with Inr wd Some cap r r1 Cons.prems show ?thesis by simp
            next
              case False
              with r r1 have "try_judges cfg cases judges c hdate (judge_rows judges) st
                  = Inr (st1, False)" by simp
              then have "st1 = st" by (rule try_judges_False)
              with Inr wd Some cap r r1 False Cons show ?thesis by simp
            qed
          qed
        qed
      qed
    qed
  qed
qed

lemma try_judges_True:
  assumes "try_judges cfg cases judges c hdate js st = Inr (st', True)"
  shows "\<exists>h. schedule st' = schedule st @ [h] \<and> warnings st' = warnings st \<and>
           hearing_date h = hdate \<and> h_case_id h = case_id c \<and>
           h_case_number h = case_number c \<and> h_priority_score h = get_priority cases c \<and>
           h_judge_id h \<in> judge_id ` set js"
  using assms by (induction js) (auto split: if_splits option.splits)

lemma try_judges_shape:
  assumes "shape st = shape st2" and "same_columns cases cases2"
  shows "erase_step (try_judges cfg cases judges c hdate js st)
           = erase_step (try_judges cfg cases2 judges c2 hdate js st2)"
  using assms
  by (induction js) (auto simp: shape_def same_columns_def split: option.splits)

lemma erase_step_Inr:
  "erase_step r = Inr (s, b) \<longleftrightarrow> (\<exists>st. r = Inr (st, b) \<and> shape st = s)"
  by (cases r) auto

lemma erase_step_Inl: "erase_step r = Inl e \<longleftrightarrow> r = Inl e"
  by (cases r) auto

lemma try_days_shape:
  assumes "shape st = shape st2" and "same_columns cases cases2"
  shows "erase_step (try_days cfg cases judges c cur ks st)
           = erase_step (try_days cfg cases2 judges c2 cur ks st2)"
  using assms(1)
proof (induction ks arbitrary: st st2)
  case Nil
  then show ?case by simp
next
  case (Cons i ks)
  note IH = Cons.IH
  from Cons.prems have dh: "daily_hearings st = daily_hearings st2"
    by (simp add: shape_def)
  show ?case
  proof (cases "date_add cur i")
    case (Inl e)
    then show ?thesis by simp
  next
    case (Inr hdate)
    note tj = try_judges_shape [OF Cons.prems assms(2), of cfg judges c hdate "judge_rows judges" c2]
    show ?thesis
    proof (cases "try_judges cfg cases judges c hdate (judge_rows judges) st")
      case l: (Inl e)
      with tj have "try_judges cfg cases2 judges c2 hdate (judge_rows judges) st2 = Inl e"
        by (simp add: erase_step_Inl [symmetric])
      with l Inr dh IH [OF Cons.prems] show ?thesis
        by (simp split: option.splits)
    next
      case r: (Inr r)
      obtain st1 b1 where r1: "r = (st1, b1)" by (cases r)
      with r tj have "erase_step (try_judges cfg cases2 judges c2 hdate (judge_rows judges) st2)
          = Inr (shape st1, b1)" by simp
      then obtain st3 where r2: "try_judges cfg cases2 judges c2 hdate (judge_rows judges) st2
          = Inr (st3, b1)" and s3: "shape st3 = shape st1"
        by (auto simp: erase_step_Inr)
      from s3 have "shape st1 = shape st3" by simp
      from IH [OF this] IH [OF Cons.prems] Inr dh r r1 r2 s3 show ?thesis
        by (simp split: option.splits)
    qed
  qed
qed

lemma schedule_cases_shape:
  assumes "same_columns cases cases2"
  shows "shape st = shape st2 \<Longrightarrow> length cs = length cs2 \<Longrightarrow>
         erase_run (schedule_cases cfg cases judges cur n cs st)
           = erase_run (schedule_cases cfg cases2 judges cur n cs2 st2)"
proof (induction cs arbitrary: cs2 st st2)
  case Nil
  then show ?case by simp
next
  case (Cons c cs)
  then obtain c2 cs2' where cs2: "cs2 = c2 # cs2'" and len: "length cs = length cs2'"
    by (cases cs2) auto
  note td = try_days_shape [OF Cons.prems(1) assms, of cfg judges c cur "range_days n" c2]
  from assms have hc: "has_case_number cases = has_case_number cases2"
    by (simp add: same_columns_def)
  show ?case
  proof (cases "try_days cfg cases judges c cur (range_days n) st")
    case l: (Inl e)
    with td have "try_days cfg cases2 judges c2 cur (range_days n) st2 = Inl e"
      by (simp add: erase_step_Inl [symmetric])
    with l cs2 show ?thesis by simp
  next
    case r: (Inr r)
    obtain st1 b1 where r1: "r = (st1, b1)" by (cases r)
    with r td have "erase_step (try_days cfg cases2 judges c2 cur (range_days n) st2)
        = Inr (shape st1, b1)" by simp
    then obtain st3 where r2: "try_days cfg cases2 judges c2 cur (range_days n) st2
        = Inr (st3, b1)" and s3: "shape st3 = shape st1"
      by (auto simp: erase_step_Inr)
    from s3 have s: "shape st1 = shape st3" by simp
    then have s': "shape (st1\<lparr>warnings := warnings st1 @ [case_number c]\<rparr>)
        = shape (st3\<lparr>warnings := warnings st3 @ [case_number c2]\<rparr>)" by simp
    from Cons.IH [OF s len] Cons.IH [OF s' len] r r1 r2 cs2 hc show ?thesis by simp
  qed
qed

section \<open>The search takes the first date that is not blocked\<close>

lemma judge_full_warnings [simp]:
  "judge_full cfg (st\<lparr>warnings := w\<rparr>) = judge_full cfg st"
  by (intro ext) (simp add: judge_full_def)

lemma blocked_warnings [simp]:
  "blocked cfg judges (st\<lparr>warnings := w\<rparr>) d = blocked cfg judges st d"
  by (simp add: blocked_def)

lemma try_judges_False_full:
  "try_judges cfg cases judges c hdate js st = Inr (st', False) \<Longrightarrow>
     list_all (judge_full cfg st hdate) js"
  by (induction js) (auto simp: judge_full_def split: if_splits option.splits)

lemma try_judges_True_free:
  "try_judges cfg cases judges c hdate js st = Inr (st', True) \<Longrightarrow>
     \<not> list_all (judge_full cfg st hdate) js"
  by (induction js) (auto simp: judge_full_def split: if_splits option.splits)

lemma try_judges_True_blocked:
  assumes "try_judges cfg cases judges c hdate js st = Inr (st', True)"
    and "blocked cfg judges st d"
  shows "blocked cfg judges st' d"
  using assms
proof (induction js)
  case Nil
  then show ?case by simp
next
  case (Cons j js)
  show ?case
  proof (cases "judge_daily_hearings st (judge_id j, hdate)")
    case None
    with Cons.prems show ?thesis by (simp split: if_splits)
  next
    case (Some k)
    show ?thesis
    proof (cases "k < max_hearings_per_judge cfg")
      case False
      with Some Cons show ?thesis by (simp split: if_splits)
    next
      case True
      with Some Cons.prems(1) obtain m where m: "daily_hearings st hdate = Some m"
        and dh: "daily_hearings st' = (daily_hearings st)(hdate \<mapsto> m + 1)"
        and jdh: "judge_daily_hearings st'
                    = (judge_daily_hearings st)((judge_id j, hdate) \<mapsto> k + 1)"
        by (auto split: if_splits option.splits)
      from Cons.prems(2) consider "weekday d \<ge> 5"
        | m0 where "daily_hearings st d = Some m0" "m0 \<ge> max_hearings_per_day cfg"
        | "list_all (judge_full cfg st d) (judge_rows judges)"
        by (auto simp: blocked_def split: option.splits)
      then show ?thesis
      proof cases
        case 1
        then show ?thesis by (simp add: blocked_def)
      next
        case 2
        with m dh show ?thesis by (auto simp: blocked_def)
      next
        case 3
        have "judge_full cfg st' d j'" if "judge_full cfg st d j'" for j'
          using that Some True jdh by (auto simp: judge_full_def split: option.splits)
        with 3 have "list_all (judge_full cfg st' d) (judge_rows judges)"
          by (auto simp: list_all_iff)
        then show ?thesis by (simp add: blocked_def)
      qed
    qed
  qed
qed

lemma date_add_Inr: "date_add cur i = Inr d \<Longrightarrow> d = cur + i"
  by (simp add: date_add_def split: if_splits)

lemma try_days_Cons_cases:
  assumes "try_days cfg cases judges c cur (i # ks) st = Inr (st', b)"
  shows "date_add cur i = Inr (cur + i) \<and>
         (blocked cfg judges st (cur + i) \<and>
            try_days cfg cases judges c cur ks st = Inr (st', b) \<or>
          \<not> blocked cfg judges st (cur + i) \<and> b \<and>
            try_judges cfg cases judges c (cur + i) (judge_rows judges) st = Inr (st', True))"
proof -
  from assms obtain hdate where "date_add cur i = Inr hdate"
    by (cases "date_add cur i") auto
  with date_add_Inr have da: "date_add cur i = Inr (cur + i)" by blast
  let ?d = "cur + i"
  show ?thesis
  proof (cases "weekday ?d \<ge> 5")
    case True
    with da assms show ?thesis by (simp add: blocked_def)
  next
    case wd: False
    from da wd assms obtain m where m: "daily_hearings st ?d = Some m"
      by (cases "daily_hearings st ?d") auto
    show ?thesis
    proof (cases "m \<ge> max_hearings_per_day cfg")
      case True
      with da wd m assms show ?thesis by (simp add: blocked_def)
    next
      case cap: False
      from da wd m cap assms obtain st1 b1
        where tj: "try_judges cfg cases judges c ?d (judge_rows judges) st = Inr (st1, b1)"
        by (cases "try_judges cfg cases judges c ?d (judge_rows judges) st") auto
      show ?thesis
      proof (cases b1)
        case True
        with tj try_judges_True_free [of cfg cases judges c ?d "judge_rows judges" st st1]
        have "\<not> list_all (judge_full cfg st ?d) (judge_rows judges)" by simp
        with wd m cap have "\<not> blocked cfg judges st ?d" by (simp add: blocked_def)
        with da wd m cap tj True assms show ?thesis by simp
      next
        case False
        with tj have tjF: "try_judges cfg cases judges c ?d (judge_rows judges) st
            = Inr (st1, False)" by simp
        then have "st1 = st" by (rule try_judges_False)
        moreover from tjF have "list_all (judge_full cfg st ?d) (judge_rows judges)"
          by (rule try_judges_False_full)
        ultimately show ?thesis using da wd m cap tj False assms by (simp add: blocked_def)
      qed
    qed
  qed
qed

lemma try_days_True:
  "try_days cfg cases judges c cur ks st = Inr (st', True) \<Longrightarrow>
     \<exists>ks1 i ks2. ks = ks1 @ i # ks2 \<and> (\<forall>i'\<in>set ks1. blocked cfg judges st (cur + i')) \<and>
        \<not> blocked cfg judges st (cur + i) \<and>
        try_judges cfg cases judges c (cur + i) (judge_rows judges) st = Inr (st', True)"
proof (induction ks)
  case Nil
  then show ?case by simp
next
  case (Cons i ks)
  from try_days_Cons_cases [OF Cons.prems]
  consider "blocked cfg judges st (cur + i)"
      "try_days cfg cases judges c cur ks st = Inr (st', True)"
    | "\<not> blocked cfg judges st (cur + i)"
      "try_judges cfg cases judges c (cur + i) (judge_rows judges) st = Inr (st', True)"
    by blast
  then show ?case
  proof cases
    case 1
    from Cons.IH [OF 1(2)] obtain ks1 i0 ks2
      where "ks = ks1 @ i0 # ks2" "\<forall>i'\<in>set ks1. blocked cfg judges st (cur + i')"
        "\<not> blocked cfg judges st (cur + i0)"
        "try_judges cfg cases judges c (cur + i0) (judge_rows judges) st = Inr (st', True)"
      by blast
    with 1(1) have "i # ks = (i # ks1) @ i0 # ks2 \<and>
        (\<forall>i'\<in>set (i # ks1). blocked cfg judges st (cur + i')) \<and>
        \<not> blocked cfg judges st (cur + i0) \<and>
        try_judges cfg cases judges c (cur + i0) (judge_rows judges) st = Inr (st', True)"
      by simp
    then show ?thesis by blast
  next
    case 2
    then have "i # ks = [] @ i # ks \<and> (\<forall>i'\<in>set []. blocked cfg judges st (cur + i')) \<and>
        \<not> blocked cfg judges st (cur + i) \<and>
        try_judges cfg cases judges c (cur + i) (judge_rows judges) st = Inr (st', True)"
      by simp
    then show ?thesis by blast
  qed
qed

lemma range_days_strict: "sorted_wrt (<) (range_days n)"
  by (simp add: range_days_def sorted_wrt_map)

lemma strict_split_before:
  assumes "sorted_wrt (<) (ks1 @ i # ks2)" and "i' \<in> set (ks1 @ i # ks2)" and "i' < (i::int)"
  shows "i' \<in> set ks1"
  using assms by (auto simp: sorted_wrt_append)

text \<open>
  The dates of the schedule never go back: every date of the horizon before the
  date of an assignment is blocked, and stays so.
\<close>

lemma schedule_cases_sorted:
  assumes "schedule_cases cfg cases judges cur n cs st = Inr st'"
    and "sorted (map hearing_date (schedule st))"
    and "\<forall>h\<in>set (schedule st). \<forall>i\<in>set (range_days n).
           cur + i < hearing_date h \<longrightarrow> blocked cfg judges st (cur + i)"
  shows "sorted (map hearing_date (schedule st'))"
  using assms
proof (induction cs arbitrary: st)
  case Nil
  then show ?case by simp
next
  case (Cons c cs)
  from Cons.prems(1) obtain st1 b1
    where td: "try_days cfg cases judges c cur (range_days n) st = Inr (st1, b1)"
    by (cases "try_days cfg cases judges c cur (range_days n) st") auto
  show ?case
  proof (cases b1)
    case False
    with td have "try_days cfg cases judges c cur (range_days n) st = Inr (st1, False)"
      by simp
    then have "st1 = st" by (rule try_days_False)
    with td False Cons.prems(1)
    have run: "schedule_cases cfg cases judges cur n cs
        (st\<lparr>warnings := warnings st @ [case_number c]\<rparr>) = Inr st'"
      by (simp split: if_splits)
    show ?thesis
      by (rule Cons.IH [OF run]) (use Cons.prems(2,3) in simp_all)
  next
    case True
    with td Cons.prems(1) have run: "schedule_cases cfg cases judges cur n cs st1 = Inr st'"
      by simp
    from td True have tdT: "try_days cfg cases judges c cur (range_days n) st = Inr (st1, True)"
      by simp
    from try_days_True [OF tdT]
    obtain ks1 i ks2 where split: "range_days n = ks1 @ i # ks2"
      and before: "\<forall>i'\<in>set ks1. blocked cfg judges st (cur + i')"
      and free: "\<not> blocked cfg judges st (cur + i)"
      and tj: "try_judges cfg cases judges c (cur + i) (judge_rows judges) st = Inr (st1, True)"
      by blast
    from try_judges_True [OF tj] obtain h
      where h: "schedule st1 = schedule st @ [h]" "hearing_date h = cur + i" by blast
    from split have iin: "i \<in> set (range_days n)" by simp
    have le: "hearing_date h' \<le> cur + i" if "h' \<in> set (schedule st)" for h'
    proof (rule ccontr)
      assume "\<not> hearing_date h' \<le> cur + i"
      then have "cur + i < hearing_date h'" by simp
      with Cons.prems(3) that iin have "blocked cfg judges st (cur + i)" by blast
      with free show False by simp
    qed
    have s1: "sorted (map hearing_date (schedule st1))"
      using Cons.prems(2) le h by (auto simp: sorted_append)
    have b1: "\<forall>h'\<in>set (schedule st1). \<forall>i'\<in>set (range_days n).
           cur + i' < hearing_date h' \<longrightarrow> blocked cfg judges st1 (cur + i')"
    proof (intro ballI impI)
      fix h' i' assume h': "h' \<in> set (schedule st1)" and i': "i' \<in> set (range_days n)"
        and lt: "cur + i' < hearing_date h'"
      have "blocked cfg judges st (cur + i')"
      proof (cases "h' \<in> set (schedule st)")
        case True
        with Cons.prems(3) i' lt show ?thesis by blast
      next
        case False
        with h' h have "h' = h" by simp
        with lt h have "i' < i" by simp
        with strict_split_before [of ks1 i ks2 i'] range_days_strict [of n] split i'
        have "i' \<in> set ks1" by simp
        with before show ?thesis by simp
      qed
      with tj show "blocked cfg judges st1 (cur + i')" by (rule try_judges_True_blocked)
    qed
    from Cons.IH [OF run s1 b1] show ?thesis .
  qed
qed

section \<open>The cases of the schedule are a prefix of the processing order\<close>

lemma same_columns_refl [simp]: "same_columns cases cases"
  by (simp add: same_columns_def)

lemma schedule_cases_stuck:
  assumes "try_days cfg cases judges c cur (range_days n) st = Inr (st, False)"
  shows "shape st2 = shape st \<Longrightarrow> schedule_cases cfg cases judges cur n cs st2 = Inr st' \<Longrightarrow>
         schedule st' = schedule st2 \<and> warnings st' = warnings st2 @ map case_number cs"
proof (induction cs arbitrary: st2)
  case Nil
  then show ?case by simp
next
  case (Cons c2 cs)
  from try_days_shape [OF Cons.prems(1) same_columns_refl, of cfg cases judges c2 cur "range_days n" c]
    assms
  have "erase_step (try_days cfg cases judges c2 cur (range_days n) st2) = Inr (shape st, False)"
    by simp
  then obtain st3 where td: "try_days cfg cases judges c2 cur (range_days n) st2 = Inr (st3, False)"
    by (auto simp: erase_step_Inr)
  then have "st3 = st2" by (rule try_days_False)
  with td Cons.prems(2)
  have run: "schedule_cases cfg cases judges cur n cs
               (st2\<lparr>warnings := warnings st2 @ [case_number c2]\<rparr>) = Inr st'"
    by (simp split: if_splits)
  have "shape (st2\<lparr>warnings := warnings st2 @ [case_number c2]\<rparr>) = shape st"
    using Cons.prems(1) by simp
  from Cons.IH [OF this run] show ?case by simp
qed

lemma schedule_cases_prefix:
  "schedule_cases cfg cases judges cur n cs st = Inr st' \<Longrightarrow>
     \<exists>m hs. m \<le> length cs \<and> schedule st' = schedule st @ hs \<and> length hs = m \<and>
        map h_case_id hs = map case_id (take m cs) \<and>
        map h_case_number hs = map case_number (take m cs) \<and>
        map h_priority_score hs = map (get_priority cases) (take m cs) \<and>
        warnings st' = warnings st @ map case_number (drop m cs)"
proof (induction cs arbitrary: st)
  case Nil
  then show ?case by simp
next
  case (Cons c cs)
  from Cons.prems obtain st1 b1
    where td: "try_days cfg cases judges c cur (range_days n) st = Inr (st1, b1)"
    by (cases "try_days cfg cases judges c cur (range_days n) st") auto
  show ?case
  proof (cases b1)
    case True
    with td have tdT: "try_days cfg cases judges c cur (range_days n) st = Inr (st1, True)"
      by simp
    from try_days_True [OF tdT] obtain i
      where "try_judges cfg cases judges c (cur + i) (judge_rows judges) st = Inr (st1, True)"
      by blast
    from try_judges_True [OF this] obtain h
      where h: "schedule st1 = schedule st @ [h]" "warnings st1 = warnings st"
        "h_case_id h = case_id c" "h_case_number h = case_number c"
        "h_priority_score h = get_priority cases c" by blast
    from tdT Cons.prems have "schedule_cases cfg cases judges cur n cs st1 = Inr st'" by simp
    from Cons.IH [OF this] obtain m hs
      where IH: "m \<le> length cs" "schedule st' = schedule st1 @ hs" "length hs = m"
        "map h_case_id hs = map case_id (take m cs)"
        "map h_case_number hs = map case_number (take m cs)"
        "map h_priority_score hs = map (get_priority cases) (take m cs)"
        "warnings st' = warnings st1 @ map case_number (drop m cs)" by blast
    with h have "Suc m \<le> length (c # cs) \<and> schedule st' = schedule st @ (h # hs) \<and>
        length (h # hs) = Suc m \<and>
        map h_case_id (h # hs) = map case_id (take (Suc m) (c # cs)) \<and>
        map h_case_number (h # hs) = map case_number (take (Suc m) (c # cs)) \<and>
        map h_priority_score (h # hs) = map (get_priority cases) (take (Suc m) (c # cs)) \<and>
        warnings st' = warnings st @ map case_number (drop (Suc m) (c # cs))"
      by simp
    then show ?thesis by blast
  next
    case False
    with td have tdF: "try_days cfg cases judges c cur (range_days n) st = Inr (st1, False)"
      by simp
    then have st1: "st1 = st" by (rule try_days_False)
    with tdF Cons.prems
    have run: "schedule_cases cfg cases judges cur n cs
                 (st\<lparr>warnings := warnings st @ [case_number c]\<rparr>) = Inr st'"
      by (simp split: if_splits)
    from tdF st1 have stuck: "try_days cfg cases judges c cur (range_days n) st = Inr (st, False)"
      by simp
    have "shape (st\<lparr>warnings := warnings st @ [case_number c]\<rparr>) = shape st" by simp
    from schedule_cases_stuck [OF stuck this run]
    have "0 \<le> length (c # cs) \<and> schedule st' = schedule st @ [] \<and> length ([]::hearing list) = 0 \<and>
        map h_case_id [] = map case_id (take 0 (c # cs)) \<and>
        map h_case_number [] = map case_number (take 0 (c # cs)) \<and>
        map h_priority_score [] = map (get_priority cases) (take 0 (c # cs)) \<and>
        warnings st' = warnings st @ map case_number (drop 0 (c # cs))"
      by simp
    then show ?thesis by blast
  qed
qed

lemma heuristic_prefix:
  assumes "schedule_hearings_heuristic srt cfg cases judges cur n = Inr (df, w)"
  shows "\<exists>m. m \<le> length (processing_order srt cases) \<and> length (rows df) = m \<and>
           map h_case_id (rows df) = map case_id (take m (processing_order srt cases)) \<and>
           map h_case_number (rows df) = map case_number (take m (processing_order srt cases)) \<and>
           map h_priority_score (rows df)
             = map (get_priority cases) (take m (processing_order srt cases)) \<and>
           w = map case_number (drop m (processing_order srt cases))"
proof -
  from heuristic_run [OF assms] obtain st0 st
    where e: "schedule st0 = []" "warnings st0 = []"
      and run: "schedule_cases cfg cases judges cur n (processing_order srt cases) st0 = Inr st"
      and r: "df = pd_DataFrame (schedule st)" "w = warnings st" by blast
  from schedule_cases_prefix [OF run] e r show ?thesis
    by (auto simp: pd_DataFrame_def)
qed

lemma processing_order_mset:
  assumes "sort_values_contract srt"
  shows "mset (processing_order srt cases) = mset (case_rows cases)"
  using assms by (simp add: processing_order_def sort_values_contract_def)

lemma mset_take_subset: "mset (take m xs) \<subseteq># mset xs"
proof -
  have "mset xs = mset (take m xs) + mset (drop m xs)"
    by (metis append_take_drop_id mset_append)
  then show ?thesis by simp
qed

lemma heuristic_case_ids:
  assumes "schedule_hearings_heuristic srt cfg cases judges cur n = Inr (df, w)"
    and "sort_values_contract srt"
  shows "mset (map h_case_id (rows df)) \<subseteq># mset (map case_id (case_rows cases))"
    and "distinct (map case_id (case_rows cases)) \<Longrightarrow> distinct (map h_case_id (rows df))"
proof -
  let ?ys = "processing_order srt cases"
  from heuristic_prefix [OF assms(1)] obtain m
    where ids: "map h_case_id (rows df) = map case_id (take m ?ys)" by blast
  have ms: "mset (map case_id ?ys) = mset (map case_id (case_rows cases))"
    using processing_order_mset [OF assms(2), of cases] by (metis mset_map)
  have "mset (map case_id (take m ?ys)) \<subseteq># mset (map case_id ?ys)"
    using mset_take_subset [of m "map case_id ?ys"] by (simp add: take_map)
  with ids ms show "mset (map h_case_id (rows df)) \<subseteq># mset (map case_id (case_rows cases))"
    by simp
  assume "distinct (map case_id (case_rows cases))"
  with ms have "distinct (map case_id ?ys)" by (metis mset_eq_imp_distinct_iff)
  then have "distinct (take m (map case_id ?ys))" by (rule distinct_take)
  with ids show "distinct (map h_case_id (rows df))" by (simp add: take_map)
qed

section \<open>The optimized schedule has every case once\<close>

lemma extract_schedule_append:
  "extract_schedule cfg cases judges start_date v (xs @ ys) = Inr hs \<Longrightarrow>
     \<exists>hs1 hs2. extract_schedule cfg cases judges start_date v xs = Inr hs1 \<and>
        extract_schedule cfg cases judges start_date v ys = Inr hs2 \<and> hs = hs1 @ hs2"
proof (induction xs arbitrary: hs)
  case Nil
  then show ?case by simp
next
  case (Cons x xs)
  obtain c j d where x: "x = (c, j, d)" by (cases x)
  show ?case
  proof (cases "v (c, j, d) = 1")
    case False
    with Cons x show ?thesis by simp
  next
    case True
    with Cons.prems x obtain hdate hs'
      where "extract_schedule cfg cases judges start_date v (xs @ ys) = Inr hs'"
        and rest: "date_add start_date (int d) = Inr hdate" "has_case_id cases"
          "has_case_number cases" "has_judge_id judges" "has_judge_name judges"
        and hs: "hs = \<lparr>h_case_id = case_id (case_rows cases ! c),
                          h_case_number = case_number (case_rows cases ! c),
                          h_judge_id = judge_id (judge_rows judges ! j),
                          h_judge_name = judge_name (judge_rows judges ! j),
                          hearing_date = hdate,
                          h_priority_score = get_priority cases (case_rows cases ! c),
                          estimated_duration_hours = avg_hearing_duration cfg\<rparr> # hs'"
      by (auto split: sum.splits if_splits)
    from Cons.IH [OF this(1)] rest hs True x show ?thesis by auto
  qed
qed

lemma extract_schedule_one_case:
  assumes "extract_schedule cfg cases judges start_date v xs = Inr hs"
    and "\<forall>x\<in>set xs. fst x = c"
  shows "map h_case_id hs
           = replicate (length (filter (\<lambda>x. v x = 1) xs)) (case_id (case_rows cases ! c))"
  using assms
proof (induction xs arbitrary: hs)
  case Nil
  then show ?case by simp
next
  case (Cons x xs)
  obtain c' j d where x: "x = (c', j, d)" by (cases x)
  with Cons.prems(2) have c': "c' = c" by simp
  show ?case
  proof (cases "v (c, j, d) = 1")
    case False
    with Cons x c' show ?thesis by simp
  next
    case True
    with Cons.prems(1) x c' obtain hs'
      where "extract_schedule cfg cases judges start_date v xs = Inr hs'"
        and "map h_case_id hs = case_id (case_rows cases ! c) # map h_case_id hs'"
      by (auto split: sum.splits if_splits)
    with Cons.IH [of hs'] Cons.prems(2) True x c' show ?thesis by simp
  qed
qed

lemma sum_list_zero_one:
  assumes "\<forall>x\<in>set xs. v x = 0 \<or> v x = (1::int)"
  shows "sum_list (map v xs) = int (length (filter (\<lambda>x. v x = 1) xs))"
  using assms by (induction xs) auto

lemma extract_schedule_rows:
  assumes "extract_schedule cfg cases judges start_date v (concat (map row idx)) = Inr hs"
    and "\<forall>c\<in>set idx. (\<forall>x\<in>set (row c). fst x = c \<and> (v x = 0 \<or> v x = 1)) \<and>
           sum_list (map v (row c)) = 1"
  shows "map h_case_id hs = map (\<lambda>c. case_id (case_rows cases ! c)) idx"
  using assms
proof (induction idx arbitrary: hs)
  case Nil
  then show ?case by simp
next
  case (Cons c idx)
  from Cons.prems(1) have "extract_schedule cfg cases judges start_date v
      (row c @ concat (map row idx)) = Inr hs" by simp
  from extract_schedule_append [OF this] obtain hs1 hs2
    where e1: "extract_schedule cfg cases judges start_date v (row c) = Inr hs1"
      and e2: "extract_schedule cfg cases judges start_date v (concat (map row idx)) = Inr hs2"
      and hs: "hs = hs1 @ hs2" by blast
  from Cons.prems(2) have fst: "\<forall>x\<in>set (row c). fst x = c"
    and zo: "\<forall>x\<in>set (row c). v x = 0 \<or> v x = 1"
    and one: "sum_list (map v (row c)) = 1" by simp_all
  from sum_list_zero_one [OF zo] one have "length (filter (\<lambda>x. v x = 1) (row c)) = 1"
    by simp
  with extract_schedule_one_case [OF e1 fst]
  have "map h_case_id hs1 = [case_id (case_rows cases ! c)]" by simp
  moreover from Cons.IH [OF e2] Cons.prems(2)
  have "map h_case_id hs2 = map (\<lambda>c. case_id (case_rows cases ! c)) idx" by simp
  ultimately show ?case using hs by simp
qed

lemma row_in_concat: "c \<in> set idx \<Longrightarrow> set (row c) \<subseteq> set (concat (map row idx))"
  by (induction idx) auto

lemma optimized_case_ids:
  assumes sound: "solver_sound solve"
    and status: "fst (solve (build_model coef cfg cases judges num_days)) = OPTIMAL \<or>
                 fst (solve (build_model coef cfg cases judges num_days)) = FEASIBLE"
    and run: "schedule_hearings_optimized srt (Some solve) coef cfg cases judges start_date num_days
                = Inr (df, w)"
  shows "map h_case_id (rows df) = map case_id (case_rows cases)"
proof -
  let ?m = "build_model coef cfg cases judges num_days"
  let ?v = "snd (solve ?m)"
  let ?nc = "length (case_rows cases)"
  let ?row = "\<lambda>c. concat (map (\<lambda>j. map (\<lambda>d. (c, j, d)) [0..<nat num_days])
                 [0..<length (judge_rows judges)])"
  from sound status have feas: "feasible ?m ?v" unfolding solver_sound_def by blast
  have vars: "bool_vars ?m = concat (map ?row [0..<?nc])"
    by (simp add: build_model_def Let_def)
  from run status obtain hs
    where ex: "extract_schedule cfg cases judges start_date ?v (bool_vars ?m) = Inr hs"
      and df: "df = pd_DataFrame hs"
    by (auto simp: schedule_hearings_optimized_def Let_def split: sum.splits)
  have allrows: "\<forall>c\<in>set [0..<?nc]. (\<forall>x\<in>set (?row c). fst x = c \<and> (?v x = 0 \<or> ?v x = 1)) \<and>
           sum_list (map ?v (?row c)) = 1"
  proof
    fix c assume c: "c \<in> set [0..<?nc]"
    have "SumEq (?row c) 1 \<in> set (cp_constraints ?m)"
      using c by (simp add: build_model_def Let_def)
    with feas have "holds ?v (SumEq (?row c) 1)" unfolding feasible_def by blast
    then have one: "sum_list (map ?v (?row c)) = 1" by simp
    have "set (?row c) \<subseteq> set (bool_vars ?m)"
      unfolding vars using c by (rule row_in_concat)
    with feas have zo: "\<forall>x\<in>set (?row c). ?v x = 0 \<or> ?v x = 1"
      unfolding feasible_def by blast
    have "\<forall>x\<in>set (?row c). fst x = c" by auto
    with zo one show "(\<forall>x\<in>set (?row c). fst x = c \<and> (?v x = 0 \<or> ?v x = 1)) \<and>
           sum_list (map ?v (?row c)) = 1" by simp
  qed
  from ex have ex': "extract_schedule cfg cases judges start_date ?v
      (concat (map ?row [0..<?nc])) = Inr hs" by (simp only: vars)
  have "map h_case_id hs = map (\<lambda>c. case_id (case_rows cases ! c)) [0..<?nc]"
    by (rule extract_schedule_rows [OF ex' allrows])
  also have "\<dots> = map case_id (map ((!) (case_rows cases)) [0..<?nc])"
    by (simp add: comp_def)
  also have "\<dots> = map case_id (case_rows cases)"
    by (simp only: map_nth)
  finally show ?thesis by (simp add: df pd_DataFrame_def)
qed

lemma first_slot_solver_sound: "solver_sound first_slot_solver"
  by (simp add: solver_sound_def first_slot_solver_def)

text \<open>
  Claim C2 as stated fails for a case list that holds a case id twice: both rows are
  scheduled, and the id is twice in the output.
\<close>

theorem repeated_case_id_is_scheduled_twice:
  "schedule_hearings_heuristic sort_values_stable example_scheduler twin_cases example_judges
     738886 5
     = Inr (pd_DataFrame
         [\<lparr>h_case_id = 1, h_case_number = ''A/1'', h_judge_id = 7, h_judge_name = ''Rao'',
           hearing_date = 738886, h_priority_score = 60, estimated_duration_hours = 1 / 2\<rparr>,
          \<lparr>h_case_id = 1, h_case_number = ''A/1-bis'', h_judge_id = 7, h_judge_name = ''Rao'',
           hearing_date = 738886, h_priority_score = 40, estimated_duration_hours = 1 / 2\<rparr>],
         [])"
  by code_simp

text \<open>
  Claim C2 as amended. Every row of the case list is assigned at most once: in a
  schedule of the heuristic, and in a schedule of the optimized scheduler with a
  solver whose reported values satisfy the model, a case id occurs at most as often
  as in the case list, so at most once when the ids of the case list are distinct.
  When the solver reports OPTIMAL or FEASIBLE every row is assigned exactly once: the
  case ids of the schedule are those of the case list, in its order.
\<close>

theorem each_case_row_is_assigned_at_most_once:
  assumes "sort_values_contract srt"
  shows "(\<forall>df w. schedule_hearings_heuristic srt cfg cases judges start_date num_days
                    = Inr (df, w) \<longrightarrow>
            mset (map h_case_id (rows df)) \<subseteq># mset (map case_id (case_rows cases)) \<and>
            (distinct (map case_id (case_rows cases)) \<longrightarrow> distinct (map h_case_id (rows df)))) \<and>
         (\<forall>solve df w.
            solver_sound solve \<and>
            schedule_hearings_optimized srt (Some solve) coef cfg cases judges start_date num_days
              = Inr (df, w) \<longrightarrow>
            mset (map h_case_id (rows df)) \<subseteq># mset (map case_id (case_rows cases)) \<and>
            (distinct (map case_id (case_rows cases)) \<longrightarrow> distinct (map h_case_id (rows df))) \<and>
            (fst (solve (build_model coef cfg cases judges num_days)) = OPTIMAL \<or>
             fst (solve (build_model coef cfg cases judges num_days)) = FEASIBLE \<longrightarrow>
               map h_case_id (rows df) = map case_id (case_rows cases)))"
proof -
  have heur: "mset (map h_case_id (rows df)) \<subseteq># mset (map case_id (case_rows cases)) \<and>
            (distinct (map case_id (case_rows cases)) \<longrightarrow> distinct (map h_case_id (rows df)))"
    if "schedule_hearings_heuristic srt cfg cases judges start_date num_days = Inr (df, w)"
    for df w
    using heuristic_case_ids [OF that assms] by simp
  have opt: "mset (map h_case_id (rows df)) \<subseteq># mset (map case_id (case_rows cases)) \<and>
            (distinct (map case_id (case_rows cases)) \<longrightarrow> distinct (map h_case_id (rows df))) \<and>
            (fst (solve (build_model coef cfg cases judges num_days)) = OPTIMAL \<or>
             fst (solve (build_model coef cfg cases judges num_days)) = FEASIBLE \<longrightarrow>
               map h_case_id (rows df) = map case_id (case_rows cases))"
    if sound: "solver_sound solve"
      and run: "schedule_hearings_optimized srt (Some solve) coef cfg cases judges start_date
                  num_days = Inr (df, w)"
    for solve df w
  proof (cases "fst (solve (build_model coef cfg cases judges num_days)) = OPTIMAL \<or>
             fst (solve (build_model coef cfg cases judges num_days)) = FEASIBLE")
    case True
    from optimized_case_ids [OF sound True run]
    have "map h_case_id (rows df) = map case_id (case_rows cases)" .
    then show ?thesis by simp
  next
    case False
    with run have "schedule_hearings_heuristic srt cfg cases judges start_date num_days
        = Inr (df, w)"
      by (simp add: schedule_hearings_optimized_def Let_def)
    from heur [OF this] False show ?thesis by simp
  qed
  from heur opt show ?thesis by blast
qed

theorem each_case_row_is_assigned_at_most_once_witness:
  "schedule_hearings_heuristic sort_values_stable example_scheduler example_cases example_judges
     738886 5 = Inr (pd_DataFrame example_schedule, []) \<and>
   distinct (map h_case_id (rows (pd_DataFrame example_schedule))) \<and>
   schedule_hearings_optimized sort_values_stable (Some first_slot_solver) exact_coefficient
     roomy_scheduler example_cases example_judges 738886 5
     = Inr (pd_DataFrame first_day_schedule, []) \<and>
   map h_case_id (rows (pd_DataFrame first_day_schedule)) = map case_id (case_rows example_cases)"
proof -
  have run: "schedule_hearings_heuristic sort_values_stable example_scheduler example_cases
     example_judges 738886 5 = Inr (pd_DataFrame example_schedule, [])"
    by code_simp
  have opt: "schedule_hearings_optimized sort_values_stable (Some first_slot_solver)
     exact_coefficient roomy_scheduler example_cases example_judges 738886 5
     = Inr (pd_DataFrame first_day_schedule, [])"
    by code_simp
  have st: "fst (first_slot_solver (build_model exact_coefficient roomy_scheduler example_cases
     example_judges 5)) = FEASIBLE"
    by code_simp
  have d: "distinct (map case_id (case_rows example_cases))"
    by (simp add: example_cases_def)
  note a = each_case_row_is_assigned_at_most_once [OF sort_values_stable_contract,
      of example_scheduler example_cases example_judges 738886 5 exact_coefficient]
  note b = each_case_row_is_assigned_at_most_once [OF sort_values_stable_contract,
      of roomy_scheduler example_cases example_judges 738886 5 exact_coefficient]
  from a run d have "distinct (map h_case_id (rows (pd_DataFrame example_schedule)))"
    by blast
  moreover from b opt st first_slot_solver_sound
  have "map h_case_id (rows (pd_DataFrame first_day_schedule))
      = map case_id (case_rows example_cases)"
    by blast
  ultimately show ?thesis using run opt by simp
qed

section \<open>The order of processing\<close>






end
